theory Spec2Isabelle
  imports Main "HOL-Library.AList"
begin

section \<open>String helpers of the Go standard library\<close>

text \<open>
  Go strings are byte sequences; they are modelled as \<open>string\<close> (a list of characters).
  Only the library functions that \<open>main.go\<close> calls are given, with the meaning the
  Go documentation states for them.
\<close>

definition dquote :: char where
  "dquote = CHR 0x22"

text \<open>\<open>strings.Trim(s, cutset)\<close> with a one-character cutset: all leading and all trailing
  occurrences of the character are removed.\<close>

definition strings_Trim :: "string \<Rightarrow> char \<Rightarrow> string" where
  "strings_Trim s c = rev (dropWhile (\<lambda>x. x = c) (rev (dropWhile (\<lambda>x. x = c) s)))"

text \<open>\<open>strings.ReplaceAll(s, old, new)\<close> with a one-character \<open>old\<close>.\<close>

definition strings_ReplaceAll :: "string \<Rightarrow> char \<Rightarrow> string \<Rightarrow> string" where
  "strings_ReplaceAll s old new = concat (map (\<lambda>x. if x = old then new else [x]) s)"

text \<open>\<open>strings.Join(elems, sep)\<close>.\<close>

fun strings_Join :: "string list \<Rightarrow> string \<Rightarrow> string" where
  "strings_Join [] sep = []"
| "strings_Join [e] sep = e"
| "strings_Join (e # f # es) sep = e @ sep @ strings_Join (f # es) sep"

text \<open>\<open>strings.Split(s, sep)\<close> for a non-empty separator: the text is cut at the leftmost
  occurrence of \<open>sep\<close>, then at the leftmost occurrence in what follows, and so on; a text
  with \<open>n\<close> occurrences gives \<open>n + 1\<close> parts, the empty text gives one empty part. For the
  empty separator Go cuts after every character.\<close>

fun split_from :: "string \<Rightarrow> string \<Rightarrow> string \<Rightarrow> string list" where
  "split_from sep cur [] = [cur]"
| "split_from sep cur (c # cs) =
     (if sep \<noteq> [] \<and> take (length sep) (c # cs) = sep
      then cur # split_from sep [] (drop (length sep) (c # cs))
      else split_from sep (cur @ [c]) cs)"

definition strings_Split :: "string \<Rightarrow> string \<Rightarrow> string list" where
  "strings_Split s sep = (if sep = [] then map (\<lambda>c. [c]) s else split_from sep [] s)"

text \<open>\<open>strings.SplitN(s, sep, 2)\<close>: at most two parts, cut at the leftmost occurrence.\<close>

fun cut_first :: "string \<Rightarrow> string \<Rightarrow> string \<Rightarrow> string list" where
  "cut_first sep cur [] = [cur]"
| "cut_first sep cur (c # cs) =
     (if sep \<noteq> [] \<and> take (length sep) (c # cs) = sep
      then [cur, drop (length sep) (c # cs)]
      else cut_first sep (cur @ [c]) cs)"

definition strings_SplitN2 :: "string \<Rightarrow> string \<Rightarrow> string list" where
  "strings_SplitN2 s sep = cut_first sep [] s"

section \<open>Identifiers and row keys (\<open>main.go\<close>, lines 405 to 448)\<close>

text \<open>
  A value read from a row into a Go \<open>interface{}\<close> is modelled by the text that
  \<open>fmt.Sprintf("%v", v)\<close> prints for it; \<open>None\<close> is Go's \<open>nil\<close> (an SQL NULL), printed
  as \<open><nil>\<close>.
\<close>

type_synonym val = "string option"

definition sprint_v :: "val \<Rightarrow> string" where
  "sprint_v v = (case v of None \<Rightarrow> ''<nil>'' | Some s \<Rightarrow> s)"

definition quoteIdentifier :: "string \<Rightarrow> string" where
  "quoteIdentifier identifier =
     [dquote] @ strings_ReplaceAll (strings_Trim identifier dquote) dquote [dquote, dquote] @ [dquote]"

text \<open>\<open>joinIdentifiers\<close> overwrites the slice it is given; the model returns the joined text
  together with the slice as it is left behind.\<close>

definition joinIdentifiers :: "string list \<Rightarrow> string \<times> string list" where
  "joinIdentifiers identifiers =
     (let quoted = map quoteIdentifier identifiers in (strings_Join quoted '', '', quoted))"

fun show_nat :: "nat \<Rightarrow> string" where
  "show_nat n =
     (if n < 10 then [char_of (48 + n)] else show_nat (n div 10) @ [char_of (48 + n mod 10)])"

declare show_nat.simps [simp del]

definition buildWhereClause :: "string list \<Rightarrow> string" where
  "buildWhereClause pkCols =
     strings_Join
       (map (\<lambda>(i, col). quoteIdentifier col @ '' = $'' @ show_nat (i + 1))
            (zip [0 ..< length pkCols] pkCols))
       '' AND ''"

definition makeKey :: "val list \<Rightarrow> string" where
  "makeKey vals = strings_Join (map sprint_v vals) ''::''"

definition splitKey :: "string \<Rightarrow> val list" where
  "splitKey key = map Some (strings_Split key ''::'')"

definition splitSchemaTable :: "string \<Rightarrow> string \<times> string" where
  "splitSchemaTable table_arg =
     (let parts = strings_SplitN2 table_arg ''.''
      in if length parts = 2 then (parts ! 0, parts ! 1) else (''public'', parts ! 0))"

text \<open>A text that can stand in a key: it has no two adjacent colons and does not end in
  a colon. A key value that can stand in a key is such a text (and not \<open>nil\<close>).\<close>

fun embeddable :: "string \<Rightarrow> bool" where
  "embeddable [] = True"
| "embeddable [c] = (c \<noteq> CHR '':'')"
| "embeddable (a # b # r) = (\<not> (a = CHR '':'' \<and> b = CHR '':'') \<and> embeddable (b # r))"

definition key_value :: "val \<Rightarrow> bool" where
  "key_value v = (case v of None \<Rightarrow> False | Some s \<Rightarrow> embeddable s)"

section \<open>The two databases\<close>

text \<open>
  The connection layer (pgx) and the PostgreSQL servers are not part of the repository;
  the program sees them as a capability that executes statements. A connection is
  modelled with the one relation it holds: its catalog entries, its durable rows, the
  rows as seen inside the open transaction (if any), the statements received so far, a
  schedule of faults (the \<open>n\<close>-th statement received may fail), the server's evaluation of
  a filter expression on a row, and the server's \<open>md5(row_to_json(t)::text)\<close>.

  A row maps column names to values; a column that is absent from the row is NULL.
  All values are text: what \<open>%v\<close> prints for a value is taken to be what the server
  accepts for it as a parameter.
\<close>

type_synonym row = "(string \<times> string) list"

datatype fault = Refused | ScanFails | StreamFails

datatype dberr = Fault fault | UndefinedObject | BadArguments | NoRows | NotNull | TxClosed

datatype request =
    PrimaryKeyLookup string string
  | ColumnLookup string string
  | SourceFingerprints "string list" string string string
  | TargetFingerprints "string list" string string "string list" "val list"
  | Begin
  | SetConstraintsDeferred
  | SelectRow "string list" string string "string list" "val list"
  | Upsert string string "string list" "string list" "string list" "val list"
  | DeleteRow string string "string list" "val list"
  | Commit
  | Rollback

record conn =
  rel_schema :: string
  rel_name :: string
  pk_decl :: "string list"
  col_decl :: "string list"
  stored :: "row list"
  txn :: "row list option"
  issued :: "request list"
  faults :: "nat \<Rightarrow> fault option"
  holds :: "string \<Rightarrow> row \<Rightarrow> bool"
  row_hash :: "row \<Rightarrow> string"

subsection \<open>The text of the statements\<close>

text \<open>The SQL text that \<open>fmt.Sprintf\<close> builds for each request, from the identifiers as
  they are at that point of the run (quoted once or twice).\<close>

definition where_any :: "string list \<Rightarrow> string" where
  "where_any quoted = strings_Join (map (\<lambda>q. q @ '' = ANY($1)'') quoted) '' AND ''"

definition where_eq :: "string list \<Rightarrow> string" where
  "where_eq quoted =
     strings_Join (map (\<lambda>(i, q). q @ '' = $'' @ show_nat (i + 1)) (zip [0 ..< length quoted] quoted))
       '' AND ''"

definition placeholders :: "nat \<Rightarrow> string" where
  "placeholders n = strings_Join (map (\<lambda>i. ''$'' @ show_nat (i + 1)) [0 ..< n]) '', ''"

definition updateSet :: "string list \<Rightarrow> string" where
  "updateSet quoted = strings_Join (map (\<lambda>q. q @ '' = EXCLUDED.'' @ q) quoted) '', ''"

fun sql_text :: "request \<Rightarrow> string" where
  "sql_text (PrimaryKeyLookup t s) =
     ''SELECT kcu.column_name FROM information_schema.table_constraints tc JOIN information_schema.key_column_usage kcu ON tc.constraint_name = kcu.constraint_name AND tc.table_schema = kcu.table_schema WHERE tc.constraint_type = 'PRIMARY KEY' AND tc.table_name = $1 AND tc.table_schema = $2 ORDER BY kcu.ordinal_position''"
| "sql_text (ColumnLookup s t) =
     ''SELECT column_name FROM information_schema.columns WHERE table_schema = $1 AND table_name = $2 ORDER BY ordinal_position''"
| "sql_text (SourceFingerprints pk sq tq wh) =
     ''SELECT '' @ strings_Join pk '', '' @ '', md5(row_to_json(t)::text) AS row_hash FROM ''
       @ sq @ ''.'' @ tq @ '' t'' @ (if wh \<noteq> [] then '' WHERE '' @ wh else [])"
| "sql_text (TargetFingerprints pk sq tq wq args) =
     ''SELECT '' @ strings_Join pk '', '' @ '', md5(row_to_json(t)::text) AS row_hash FROM ''
       @ sq @ ''.'' @ tq @ '' t WHERE '' @ where_any wq"
| "sql_text Begin = ''begin''"
| "sql_text SetConstraintsDeferred = ''SET CONSTRAINTS ALL DEFERRED''"
| "sql_text (SelectRow cols sq tq wq args) =
     ''SELECT '' @ strings_Join cols '', '' @ '' FROM '' @ sq @ ''.'' @ tq @ '' WHERE '' @ where_eq wq"
| "sql_text (Upsert sq tq cols conflict upd args) =
     ''INSERT INTO '' @ sq @ ''.'' @ tq @ '' ('' @ strings_Join cols '', '' @ '') VALUES (''
       @ placeholders (length upd) @ '') ON CONFLICT ('' @ strings_Join conflict '', ''
       @ '') DO UPDATE SET '' @ updateSet upd"
| "sql_text (DeleteRow sq tq wq args) =
     ''DELETE FROM '' @ sq @ ''.'' @ tq @ '' WHERE '' @ where_eq wq"
| "sql_text Commit = ''commit''"
| "sql_text Rollback = ''rollback''"

subsection \<open>What the server does with a statement\<close>

text \<open>A quoted identifier names what stands between its quotes, a doubled quote standing
  for one quote; a single quote inside is not an identifier.\<close>

fun undouble :: "string \<Rightarrow> string option" where
  "undouble [] = Some []"
| "undouble [c] = (if c = dquote then None else Some [c])"
| "undouble (c # d # r) =
     (if c = dquote
      then (if d = dquote then map_option ((#) dquote) (undouble r) else None)
      else map_option ((#) c) (undouble (d # r)))"

definition ident_name :: "string \<Rightarrow> string option" where
  "ident_name q =
     (if 2 \<le> length q \<and> hd q = dquote \<and> last q = dquote then undouble (butlast (tl q)) else None)"

definition on_relation :: "conn \<Rightarrow> string \<Rightarrow> string \<Rightarrow> bool" where
  "on_relation c sq tq = (ident_name sq = Some (rel_schema c) \<and> ident_name tq = Some (rel_name c))"

definition column_named :: "conn \<Rightarrow> string \<Rightarrow> string option" where
  "column_named c q =
     (case ident_name q of
        None \<Rightarrow> None
      | Some n \<Rightarrow> if n \<in> set (col_decl c) then Some n else None)"

definition columns_named :: "conn \<Rightarrow> string list \<Rightarrow> string list option" where
  "columns_named c qs = those (map (column_named c) qs)"

definition visible :: "conn \<Rightarrow> row list" where
  "visible c = (case txn c of None \<Rightarrow> stored c | Some w \<Rightarrow> w)"

definition send :: "request \<Rightarrow> conn \<Rightarrow> fault option \<times> conn" where
  "send rq c = (faults c (length (issued c)), c\<lparr>issued := issued c @ [rq]\<rparr>)"

text \<open>The fingerprint projection: the key columns and the digest of the whole row, for the
  rows that pass the restriction.\<close>

definition select_hashes ::
  "conn \<Rightarrow> string list \<Rightarrow> string \<Rightarrow> string \<Rightarrow> (row \<Rightarrow> bool) \<Rightarrow> dberr + (val list \<times> string) list" where
  "select_hashes c sel sq tq keep =
     (if \<not> on_relation c sq tq then Inl UndefinedObject
      else case columns_named c sel of
             None \<Rightarrow> Inl UndefinedObject
           | Some names \<Rightarrow> Inr (map (\<lambda>r. (map (map_of r) names, row_hash c r)) (filter keep (visible c))))"

text \<open>\<open>col = ANY($1)\<close> for each listed column, all with the same array.\<close>

definition any_match :: "string list \<Rightarrow> val list \<Rightarrow> row \<Rightarrow> bool" where
  "any_match names args r = list_all (\<lambda>n. map_of r n \<noteq> None \<and> map_of r n \<in> set args) names"

text \<open>\<open>col\<^sub>1 = $1 AND col\<^sub>2 = $2 ...\<close>, for as many parameters as columns.\<close>

definition eq_match :: "string list \<Rightarrow> val list \<Rightarrow> row \<Rightarrow> bool" where
  "eq_match names args r = list_all (\<lambda>(n, a). a \<noteq> None \<and> map_of r n = a) (zip names args)"

definition select_row ::
  "conn \<Rightarrow> string list \<Rightarrow> string \<Rightarrow> string \<Rightarrow> string list \<Rightarrow> val list \<Rightarrow> dberr + val list" where
  "select_row c sel sq tq wq args =
     (if \<not> on_relation c sq tq then Inl UndefinedObject
      else case (columns_named c sel, columns_named c wq) of
             (Some names, Some keys) \<Rightarrow>
               if length args \<noteq> length keys then Inl BadArguments
               else (case filter (eq_match keys args) (visible c) of
                       [] \<Rightarrow> Inl NoRows
                     | r # _ \<Rightarrow> Inr (map (map_of r) names))
           | _ \<Rightarrow> Inl UndefinedObject)"

text \<open>Writing one column of a row: a NULL removes the entry.\<close>

definition set_cell :: "row \<Rightarrow> string \<times> val \<Rightarrow> row" where
  "set_cell r nv = (case snd nv of None \<Rightarrow> AList.delete (fst nv) r | Some v \<Rightarrow> AList.update (fst nv) v r)"

definition same_key :: "string list \<Rightarrow> row \<Rightarrow> row \<Rightarrow> bool" where
  "same_key keys new r = list_all (\<lambda>k. map_of r k = map_of new k) keys"

fun merge_row :: "string list \<Rightarrow> row \<Rightarrow> (string \<times> val) list \<Rightarrow> row list \<Rightarrow> row list" where
  "merge_row keys new upd [] = [new]"
| "merge_row keys new upd (r # rs) =
     (if same_key keys new r then foldl set_cell r upd # rs else r # merge_row keys new upd rs)"

text \<open>\<open>INSERT ... ON CONFLICT (key) DO UPDATE SET col = EXCLUDED.col, ...\<close>: the key
  columns of the new row must not be NULL and the conflict target must be the declared
  key; a row with the same key is updated in the listed columns, otherwise the new row is
  added.\<close>

definition upsert_row ::
  "conn \<Rightarrow> string \<Rightarrow> string \<Rightarrow> string list \<Rightarrow> string list \<Rightarrow> string list \<Rightarrow> val list \<Rightarrow> row list \<Rightarrow> dberr + row list" where
  "upsert_row c sq tq cols conflict upd args w =
     (if \<not> on_relation c sq tq then Inl UndefinedObject
      else case (columns_named c cols, columns_named c conflict, columns_named c upd) of
             (Some names, Some keys, Some sets) \<Rightarrow>
               if length args \<noteq> length names \<or> length args \<noteq> length upd then Inl BadArguments
               else if set keys \<noteq> set (pk_decl c) then Inl UndefinedObject
               else (let given = zip names args;
                         new = foldl set_cell [] given
                     in if \<not> list_all (\<lambda>k. map_of new k \<noteq> None) keys then Inl NotNull
                        else Inr (merge_row keys new (map (\<lambda>n. (n, map_of new n)) sets) w))
           | _ \<Rightarrow> Inl UndefinedObject)"

definition delete_row ::
  "conn \<Rightarrow> string \<Rightarrow> string \<Rightarrow> string list \<Rightarrow> val list \<Rightarrow> row list \<Rightarrow> dberr + row list" where
  "delete_row c sq tq wq args w =
     (if \<not> on_relation c sq tq then Inl UndefinedObject
      else case columns_named c wq of
             None \<Rightarrow> Inl UndefinedObject
           | Some keys \<Rightarrow>
               if length args \<noteq> length keys then Inl BadArguments
               else Inr (filter (\<lambda>r. \<not> eq_match keys args r) w))"

fun effect :: "conn \<Rightarrow> request \<Rightarrow> row list \<Rightarrow> dberr + row list" where
  "effect c (Upsert sq tq cols conflict upd args) w = upsert_row c sq tq cols conflict upd args w"
| "effect c (DeleteRow sq tq wq args) w = delete_row c sq tq wq args w"
| "effect c rq w = Inr w"

subsection \<open>The calls of the driver\<close>

text \<open>\<open>conn.Query\<close> followed by the \<open>rows.Next\<close>/\<open>rows.Scan\<close> loop and the \<open>rows.Err\<close>
  check: the three places where the read can fail, each with the caller's wrapping.\<close>

definition read_all ::
  "fault option \<Rightarrow> 'a list \<Rightarrow> (dberr \<Rightarrow> 'e) \<Rightarrow> (dberr \<Rightarrow> 'e) \<Rightarrow> (dberr \<Rightarrow> 'e) \<Rightarrow> 'e + 'a list" where
  "read_all f items on_query on_scan on_read =
     (case f of
        None \<Rightarrow> Inr items
      | Some Refused \<Rightarrow> Inl (on_query (Fault Refused))
      | Some ScanFails \<Rightarrow> if items = [] then Inr [] else Inl (on_scan (Fault ScanFails))
      | Some StreamFails \<Rightarrow> Inl (on_read (Fault StreamFails)))"

text \<open>\<open>target.Begin\<close>, \<open>tx.Exec\<close>, \<open>tx.Commit\<close> and \<open>tx.Rollback\<close>. A transaction that is
  closed takes no further statement; a commit or rollback closes it whether or not the
  server confirms, and only a confirmed commit makes the rows durable.\<close>

definition tx_begin :: "conn \<Rightarrow> dberr option \<times> conn" where
  "tx_begin c =
     (case send Begin c of
        (Some f, c') \<Rightarrow> (Some (Fault f), c')
      | (None, c') \<Rightarrow> (None, c'\<lparr>txn := Some (stored c')\<rparr>))"

definition tx_exec :: "request \<Rightarrow> conn \<Rightarrow> dberr option \<times> conn" where
  "tx_exec rq c =
     (case txn c of
        None \<Rightarrow> (Some TxClosed, c)
      | Some w \<Rightarrow>
          (case send rq c of
             (Some f, c') \<Rightarrow> (Some (Fault f), c')
           | (None, c') \<Rightarrow>
               (case effect c' rq w of
                  Inl e \<Rightarrow> (Some e, c')
                | Inr w' \<Rightarrow> (None, c'\<lparr>txn := Some w'\<rparr>))))"

definition tx_commit :: "conn \<Rightarrow> dberr option \<times> conn" where
  "tx_commit c =
     (case txn c of
        None \<Rightarrow> (Some TxClosed, c)
      | Some w \<Rightarrow>
          (case send Commit c of
             (Some f, c') \<Rightarrow> (Some (Fault f), c'\<lparr>txn := None\<rparr>)
           | (None, c') \<Rightarrow> (None, c'\<lparr>stored := w, txn := None\<rparr>)))"

definition tx_rollback :: "conn \<Rightarrow> dberr option \<times> conn" where
  "tx_rollback c =
     (case txn c of
        None \<Rightarrow> (Some TxClosed, c)
      | Some w \<Rightarrow>
          (case send Rollback c of
             (Some f, c') \<Rightarrow> (Some (Fault f), c'\<lparr>txn := None\<rparr>)
           | (None, c') \<Rightarrow> (None, c'\<lparr>txn := None\<rparr>)))"

section \<open>The reconciliation run (\<open>main.go\<close>, lines 78 to 403)\<close>

text \<open>Each \<open>return fmt.Errorf("...: %w", err)\<close> of \<open>makeTableSame\<close> is one constructor,
  in the order of the source.\<close>

datatype error =
    ErrPrimaryKeyColumns dberr
  | ErrNoPrimaryKey string
  | ErrColumnNames dberr
  | ErrQuerySource dberr
  | ErrScanSource dberr
  | ErrReadSource dberr
  | ErrQueryTarget dberr
  | ErrScanTarget dberr
  | ErrReadTarget dberr
  | ErrBegin dberr
  | ErrDeferConstraints dberr
  | ErrScanSourceRow dberr
  | ErrUpsert dberr
  | ErrDelete dberr
  | ErrRollback dberr
  | ErrCommit dberr

text \<open>A Go \<open>map[string]string\<close> is an association list with distinct keys; \<open>m[k] = v\<close> is
  \<open>AList.update\<close>, a lookup is \<open>map_of\<close>, and \<open>range\<close> visits the entries in the order of
  the list (Go leaves the order open; the results below are read as sets).\<close>

type_synonym gomap = "(string \<times> string) list"

definition getPrimaryKeyColumns :: "conn \<Rightarrow> string \<Rightarrow> string \<Rightarrow> (dberr + string list) \<times> conn" where
  "getPrimaryKeyColumns c schema table_name =
     (case send (PrimaryKeyLookup table_name schema) c of
        (f, c') \<Rightarrow>
          (read_all f (if table_name = rel_name c \<and> schema = rel_schema c then pk_decl c else [])
             (\<lambda>e. e) (\<lambda>e. e) (\<lambda>e. e), c'))"

definition getColumnNames :: "conn \<Rightarrow> string \<Rightarrow> string \<Rightarrow> (dberr + string list) \<times> conn" where
  "getColumnNames c schema table_name =
     (case send (ColumnLookup schema table_name) c of
        (f, c') \<Rightarrow>
          (read_all f (if schema = rel_schema c \<and> table_name = rel_name c then col_decl c else [])
             (\<lambda>e. e) (\<lambda>e. e) (\<lambda>e. e), c'))"

text \<open>Lines 98 to 104: the exclusion set and the columns that are left.\<close>

definition skipColumns :: "string \<Rightarrow> bool" where
  "skipColumns col = (col = ''search_vector'')"

definition filterColumns :: "string list \<Rightarrow> string list" where
  "filterColumns colNames = filter (\<lambda>col. \<not> skipColumns col) colNames"

text \<open>Lines 131 to 147 and 199 to 215: every scanned row is stored under its key.\<close>

definition collect :: "(val list \<times> string) list \<Rightarrow> gomap" where
  "collect scanned =
     foldl (\<lambda>data (pkValues, rowHash). AList.update (makeKey pkValues) rowHash data) [] scanned"

text \<open>Lines 113 to 150. \<open>pkCols\<close> is the slice after \<open>joinIdentifiers\<close> has quoted it.\<close>

definition fetchSourceData ::
  "conn \<Rightarrow> string list \<Rightarrow> string \<Rightarrow> string \<Rightarrow> string \<Rightarrow> (error + gomap) \<times> conn" where
  "fetchSourceData source pkCols schema tableName where_arg =
     (let sq = quoteIdentifier schema; tq = quoteIdentifier tableName
      in case send (SourceFingerprints pkCols sq tq where_arg) source of
           (f, source') \<Rightarrow>
             (case select_hashes source' pkCols sq tq
                     (\<lambda>r. where_arg = [] \<or> holds source' where_arg r) of
                Inl e \<Rightarrow> (Inl (ErrQuerySource e), source')
              | Inr fetched \<Rightarrow>
                  (case read_all f fetched ErrQuerySource ErrScanSource ErrReadSource of
                     Inl e \<Rightarrow> (Inl e, source')
                   | Inr scanned \<Rightarrow> (Inr (collect scanned), source'))))"

text \<open>Lines 168 to 218. The one query argument is the array of the first component of
  every source key (line 190).\<close>

definition fetchTargetData ::
  "conn \<Rightarrow> string list \<Rightarrow> string \<Rightarrow> string \<Rightarrow> string list \<Rightarrow> (error + gomap) \<times> conn" where
  "fetchTargetData target pkCols schema tableName targetKeys =
     (let sq = quoteIdentifier schema; tq = quoteIdentifier tableName;
          wq = map quoteIdentifier pkCols;
          targetPKValues = map splitKey targetKeys;
          args = map (\<lambda>pkValues. pkValues ! 0) targetPKValues
      in case send (TargetFingerprints pkCols sq tq wq args) target of
           (f, target') \<Rightarrow>
             (case columns_named target' wq of
                None \<Rightarrow> (Inl (ErrQueryTarget UndefinedObject), target')
              | Some keys \<Rightarrow>
                  (case select_hashes target' pkCols sq tq (any_match keys args) of
                     Inl e \<Rightarrow> (Inl (ErrQueryTarget e), target')
                   | Inr fetched \<Rightarrow>
                       (case read_all f fetched ErrQueryTarget ErrScanTarget ErrReadTarget of
                          Inl e \<Rightarrow> (Inl e, target')
                        | Inr scanned \<Rightarrow> (Inr (collect scanned), target')))))"

text \<open>Lines 243 to 250: the loop over the source mapping, with the two lists it appends to.\<close>

fun diff_source ::
  "bool \<Rightarrow> gomap \<Rightarrow> gomap \<Rightarrow> string list \<times> string list \<Rightarrow> string list \<times> string list" where
  "diff_source force targetData [] acc = acc"
| "diff_source force targetData ((key, sourceHash) # rest) (keysToInsert, keysToUpsert) =
     (case map_of targetData key of
        None \<Rightarrow> diff_source force targetData rest (keysToInsert @ [key], keysToUpsert)
      | Some targetHash \<Rightarrow>
          if force \<or> sourceHash \<noteq> targetHash
          then diff_source force targetData rest (keysToInsert, keysToUpsert @ [key])
          else diff_source force targetData rest (keysToInsert, keysToUpsert))"

text \<open>Lines 253 to 257: the loop over the target mapping.\<close>

fun diff_target :: "gomap \<Rightarrow> gomap \<Rightarrow> string list \<Rightarrow> string list" where
  "diff_target sourceData [] keysToDelete = keysToDelete"
| "diff_target sourceData ((key, targetHash) # rest) keysToDelete =
     (case map_of sourceData key of
        None \<Rightarrow> diff_target sourceData rest (keysToDelete @ [key])
      | Some _ \<Rightarrow> diff_target sourceData rest keysToDelete)"

text \<open>The keys for which the loop of lines 243 to 250 appends to neither list: the key
  is in the target mapping, force is off and the two hashes are equal.\<close>

definition unchanged :: "bool \<Rightarrow> gomap \<Rightarrow> gomap \<Rightarrow> string list" where
  "unchanged force sourceData targetData =
     map fst (filter (\<lambda>(key, sourceHash).
                        case map_of targetData key of
                          None \<Rightarrow> False
                        | Some targetHash \<Rightarrow> \<not> (force \<or> sourceHash \<noteq> targetHash))
                sourceData)"

text \<open>The three lists of lines 239 to 257: to insert, to upsert, to delete.\<close>

definition classify :: "bool \<Rightarrow> gomap \<Rightarrow> gomap \<Rightarrow> string list \<times> string list \<times> string list" where
  "classify force sourceData targetData =
     (case diff_source force targetData sourceData ([], []) of
        (keysToInsert, keysToUpsert) \<Rightarrow>
          (keysToInsert, keysToUpsert, diff_target sourceData targetData []))"

text \<open>The statements of lines 275 to 282, 290 to 293 and 313 to 316, with their
  arguments. \<open>pkCols\<close> and \<open>filteredColNames\<close> are the slices as lines 110 and 111 left
  them, quoted once; \<open>buildWhereClause\<close> and line 272 quote each name again, and so does
  the \<open>joinIdentifiers\<close> of line 278.\<close>

definition selectQuery ::
  "string list \<Rightarrow> string \<Rightarrow> string \<Rightarrow> string list \<Rightarrow> val list \<Rightarrow> request" where
  "selectQuery filteredColNames schema tableName pkCols pkValues =
     SelectRow filteredColNames (quoteIdentifier schema) (quoteIdentifier tableName)
       (map quoteIdentifier pkCols) pkValues"

definition upsertQuery ::
  "string \<Rightarrow> string \<Rightarrow> string list \<Rightarrow> string list \<Rightarrow> val list \<Rightarrow> request" where
  "upsertQuery schema tableName filteredColNames pkCols columns =
     Upsert (quoteIdentifier schema) (quoteIdentifier tableName)
       (snd (joinIdentifiers filteredColNames)) pkCols
       (map quoteIdentifier filteredColNames) columns"

definition deleteQuery :: "string \<Rightarrow> string \<Rightarrow> string list \<Rightarrow> val list \<Rightarrow> request" where
  "deleteQuery schema tableName pkCols pkValues =
     DeleteRow (quoteIdentifier schema) (quoteIdentifier tableName)
       (map quoteIdentifier pkCols) pkValues"

text \<open>\<open>source.QueryRow\<close> and \<open>Scan\<close> of lines 294 to 305: the first row that the query
  finds, or the error that \<open>Scan\<close> reports.\<close>

fun answer_row :: "conn \<Rightarrow> request \<Rightarrow> dberr + val list" where
  "answer_row c (SelectRow sel sq tq wq args) = select_row c sel sq tq wq args"
| "answer_row c rq = Inl NoRows"

definition query_row :: "request \<Rightarrow> conn \<Rightarrow> (dberr + val list) \<times> conn" where
  "query_row rq c =
     (case send rq c of
        (Some f, c') \<Rightarrow> (Inl (Fault f), c')
      | (None, c') \<Rightarrow> (answer_row c' rq, c'))"

text \<open>Lines 288 to 311.\<close>

fun upsert_rows ::
  "string \<Rightarrow> string \<Rightarrow> string list \<Rightarrow> string list \<Rightarrow> string list
     \<Rightarrow> conn \<Rightarrow> conn \<Rightarrow> error option \<times> conn \<times> conn" where
  "upsert_rows schema tableName pkCols filteredColNames [] source target = (None, source, target)"
| "upsert_rows schema tableName pkCols filteredColNames (key # keys) source target =
     (let pkValues = splitKey key
      in case query_row (selectQuery filteredColNames schema tableName pkCols pkValues) source of
           (Inl e, source') \<Rightarrow> (Some (ErrScanSourceRow e), source', target)
         | (Inr columns, source') \<Rightarrow>
             (case tx_exec (upsertQuery schema tableName filteredColNames pkCols columns) target of
                (Some e, target') \<Rightarrow> (Some (ErrUpsert e), source', target')
              | (None, target') \<Rightarrow>
                  upsert_rows schema tableName pkCols filteredColNames keys source' target'))"

text \<open>Lines 318 to 324.\<close>

fun delete_rows ::
  "string \<Rightarrow> string \<Rightarrow> string list \<Rightarrow> string list \<Rightarrow> conn \<Rightarrow> error option \<times> conn" where
  "delete_rows schema tableName pkCols [] target = (None, target)"
| "delete_rows schema tableName pkCols (key # keys) target =
     (let pkValues = splitKey key
      in case tx_exec (deleteQuery schema tableName pkCols pkValues) target of
           (Some e, target') \<Rightarrow> (Some (ErrDelete e), target')
         | (None, target') \<Rightarrow> delete_rows schema tableName pkCols keys target')"

text \<open>Lines 234 to 344, the part of the run that is inside the transaction.\<close>

definition applyPatch ::
  "string \<Rightarrow> string \<Rightarrow> string list \<Rightarrow> string list \<Rightarrow> gomap \<Rightarrow> gomap \<Rightarrow> bool \<Rightarrow> bool
     \<Rightarrow> conn \<Rightarrow> conn \<Rightarrow> error option \<times> conn \<times> conn" where
  "applyPatch schema tableName pkCols filteredColNames sourceData targetData dryRun force source target =
     (case tx_exec SetConstraintsDeferred target of
        (Some e, target1) \<Rightarrow> (Some (ErrDeferConstraints e), source, target1)
      | (None, target1) \<Rightarrow>
          (case classify force sourceData targetData of
             (keysToInsert, keysToUpsert, keysToDelete) \<Rightarrow>
               (case upsert_rows schema tableName pkCols filteredColNames
                       (keysToInsert @ keysToUpsert) source target1 of
                  (Some e, source2, target2) \<Rightarrow> (Some e, source2, target2)
                | (None, source2, target2) \<Rightarrow>
                    (case delete_rows schema tableName pkCols keysToDelete target2 of
                       (Some e, target3) \<Rightarrow> (Some e, source2, target3)
                     | (None, target3) \<Rightarrow>
                         if dryRun
                         then (case tx_rollback target3 of
                                 (Some e, target4) \<Rightarrow> (Some (ErrRollback e), source2, target4)
                               | (None, target4) \<Rightarrow> (None, source2, target4))
                         else (case tx_commit target3 of
                                 (Some e, target4) \<Rightarrow> (Some (ErrCommit e), source2, target4)
                               | (None, target4) \<Rightarrow> (None, source2, target4))))))"

text \<open>Lines 228 to 232, the deferred function. It tests the variable \<open>err\<close>, which every
  statement after line 224 assigns before it returns, so that \<open>err\<close> is \<open>nil\<close> exactly when
  the value returned is. The result of this rollback is dropped.\<close>

definition deferred_rollback :: "error option \<Rightarrow> conn \<Rightarrow> conn" where
  "deferred_rollback err target = (if err \<noteq> None then snd (tx_rollback target) else target)"

text \<open>Lines 156 to 237: from the source mapping to the open transaction.\<close>

definition synchronize ::
  "string \<Rightarrow> string \<Rightarrow> string list \<Rightarrow> string list \<Rightarrow> gomap \<Rightarrow> bool \<Rightarrow> bool
     \<Rightarrow> conn \<Rightarrow> conn \<Rightarrow> error option \<times> conn \<times> conn" where
  "synchronize schema tableName pkCols filteredColNames sourceData dryRun force source target =
     (let targetKeys = map fst sourceData
      in if length targetKeys = 0 then (None, source, target)
         else case fetchTargetData target pkCols schema tableName targetKeys of
                (Inl e, target1) \<Rightarrow> (Some e, source, target1)
              | (Inr targetData, target1) \<Rightarrow>
                  (case tx_begin target1 of
                     (Some e, target2) \<Rightarrow> (Some (ErrBegin e), source, target2)
                   | (None, target2) \<Rightarrow>
                       (case applyPatch schema tableName pkCols filteredColNames sourceData
                               targetData dryRun force source target2 of
                          (err, source3, target3) \<Rightarrow>
                            (err, source3, deferred_rollback err target3))))"

text \<open>\<open>makeTableSame\<close>; the logger and the verbose flag only print and are left out. The
  result is the error returned (\<open>None\<close> for \<open>nil\<close>) and the two connections afterwards.\<close>

definition makeTableSame ::
  "conn \<Rightarrow> conn \<Rightarrow> string \<Rightarrow> string \<Rightarrow> bool \<Rightarrow> bool \<Rightarrow> error option \<times> conn \<times> conn" where
  "makeTableSame source target table_arg where_arg dryRun force =
     (case splitSchemaTable table_arg of
        (schema, tableName) \<Rightarrow>
          (case getPrimaryKeyColumns source schema tableName of
             (Inl e, source1) \<Rightarrow> (Some (ErrPrimaryKeyColumns e), source1, target)
           | (Inr pkCols0, source1) \<Rightarrow>
               if length pkCols0 = 0 then (Some (ErrNoPrimaryKey table_arg), source1, target)
               else (case getColumnNames source1 schema tableName of
                       (Inl e, source2) \<Rightarrow> (Some (ErrColumnNames e), source2, target)
                     | (Inr colNames, source2) \<Rightarrow>
                         (let pkCols = snd (joinIdentifiers pkCols0);
                              filteredColNames = snd (joinIdentifiers (filterColumns colNames))
                          in case fetchSourceData source2 pkCols schema tableName where_arg of
                               (Inl e, source3) \<Rightarrow> (Some e, source3, target)
                             | (Inr sourceData, source3) \<Rightarrow>
                                 synchronize schema tableName pkCols filteredColNames sourceData
                                   dryRun force source3 target))))"

section \<open>What a run may change on a connection\<close>

text \<open>\<open>rows_kept c c'\<close>: the connection \<open>c'\<close> differs from \<open>c\<close> at most in the statements
  received and in the open transaction; the durable rows, the catalog and the server are
  the same.\<close>

definition rows_kept :: "conn \<Rightarrow> conn \<Rightarrow> bool" where
  "rows_kept c c' = (c' = c\<lparr>issued := issued c', txn := txn c'\<rparr>)"

text \<open>The statements that \<open>c'\<close> has received after those of \<open>c\<close>.\<close>

definition issued_since :: "conn \<Rightarrow> conn \<Rightarrow> request list" where
  "issued_since c c' = drop (length (issued c)) (issued c')"

text \<open>\<open>only_issues P c c'\<close>: \<open>c'\<close> has received the statements of \<open>c\<close> and then others, all
  of which satisfy \<open>P\<close>. \<open>uncommitted c c'\<close>: none of them is a commit.\<close>

definition only_issues :: "(request \<Rightarrow> bool) \<Rightarrow> conn \<Rightarrow> conn \<Rightarrow> bool" where
  "only_issues P c c' =
     (take (length (issued c)) (issued c') = issued c \<and> list_all P (issued_since c c'))"


text \<open>The failures of the steps inside the transaction: reading a row back from the
  source (line 304), an upsert (line 309) and a delete (line 322).\<close>

fun step_failure :: "error \<Rightarrow> bool" where
  "step_failure (ErrScanSourceRow e) = True"
| "step_failure (ErrUpsert e) = True"
| "step_failure (ErrDelete e) = True"
| "step_failure e = False"

text \<open>The columns that a statement names: the select list of a row query, and the column
  list and update set of an upsert.\<close>

fun read_columns :: "request \<Rightarrow> string list" where
  "read_columns (SelectRow sel sq tq wq args) = sel"
| "read_columns rq = []"

fun written_columns :: "request \<Rightarrow> string list" where
  "written_columns (Upsert sq tq cols conflict upd args) = cols @ upd"
| "written_columns rq = []"

text \<open>A statement that names kept columns only: none of the names in those lists is, for
  the server, the name of an excluded column.\<close>

definition names_kept_columns :: "request \<Rightarrow> bool" where
  "names_kept_columns rq =
     list_all (\<lambda>q. case ident_name q of None \<Rightarrow> True | Some n \<Rightarrow> \<not> skipColumns n)
       (read_columns rq @ written_columns rq)"

section \<open>Example databases\<close>

text \<open>The examples use a digest that writes the row out column by column, a relation
  \<open>public.items\<close>, a filter that every row passes and a server without faults.\<close>

definition demo_digest :: "row \<Rightarrow> string" where
  "demo_digest r = concat (map (\<lambda>(n, v). n @ ''='' @ v @ '';'') r)"

definition demo_db :: "string list \<Rightarrow> string list \<Rightarrow> row list \<Rightarrow> conn" where
  "demo_db pk cols rs =
     \<lparr>rel_schema = ''public'', rel_name = ''items'', pk_decl = pk, col_decl = cols,
      stored = rs, txn = None, issued = [], faults = (\<lambda>n. None),
      holds = (\<lambda>w r. True), row_hash = demo_digest\<rparr>"

definition refuse_at :: "nat \<Rightarrow> nat \<Rightarrow> fault option" where
  "refuse_at k n = (if n = k then Some Refused else None)"

text \<open>The scenario of the specification: the source holds \<open>(1, a)\<close> and \<open>(2, b)\<close>, the
  target holds \<open>(2, old)\<close> and \<open>(3, c)\<close>.\<close>

definition scenario_source :: conn where
  "scenario_source =
     demo_db [''id''] [''id'', ''v'']
       [[(''id'', ''1''), (''v'', ''a'')], [(''id'', ''2''), (''v'', ''b'')]]"

definition scenario_target :: conn where
  "scenario_target =
     demo_db [''id''] [''id'', ''v'']
       [[(''id'', ''2''), (''v'', ''old'')], [(''id'', ''3''), (''v'', ''c'')]]"

text \<open>A relation with the two-column key \<open>(a, b)\<close>: the source holds the row \<open>(1, 2)\<close>, the
  target holds \<open>(1, 1)\<close> and \<open>(1, 2)\<close>.\<close>

definition composite_source :: conn where
  "composite_source =
     demo_db [''a'', ''b''] [''a'', ''b'', ''v'']
       [[(''a'', ''1''), (''b'', ''2''), (''v'', ''x'')]]"

definition composite_target :: conn where
  "composite_target =
     demo_db [''a'', ''b''] [''a'', ''b'', ''v'']
       [[(''a'', ''1''), (''b'', ''1''), (''v'', ''y'')],
        [(''a'', ''1''), (''b'', ''2''), (''v'', ''x'')]]"

text \<open>A source without rows, and a source whose relation has no primary key.\<close>

definition empty_source :: conn where
  "empty_source = demo_db [''id''] [''id'', ''v''] []"

definition keyless_source :: conn where
  "keyless_source = demo_db [] [''id'', ''v''] [[(''id'', ''1''), (''v'', ''a'')]]"

text \<open>A relation with the excluded column: source and target hold the same row, but for
  the value of \<open>search_vector\<close>.\<close>

definition vector_source :: conn where
  "vector_source =
     demo_db [''id''] [''id'', ''v'', ''search_vector'']
       [[(''id'', ''1''), (''v'', ''a''), (''search_vector'', ''x'')]]"

definition vector_target :: conn where
  "vector_target =
     demo_db [''id''] [''id'', ''v'', ''search_vector'']
       [[(''id'', ''1''), (''v'', ''a''), (''search_vector'', ''y'')]]"

text \<open>A relation with a second column whose name is \<open>search_vector\<close> written between
  double quotes (the quotes are part of the name), and an empty target.\<close>

definition quoted_name :: string where
  "quoted_name = [dquote] @ ''search_vector'' @ [dquote]"

definition quoted_source :: conn where
  "quoted_source =
     demo_db [''id''] [''id'', ''search_vector'', quoted_name]
       [[(''id'', ''1''), (''search_vector'', ''x''), (quoted_name, ''q'')]]"

definition quoted_target :: conn where
  "quoted_target = demo_db [''id''] [''id'', ''search_vector'', quoted_name] []"

text \<open>A relation with the two-column key \<open>(k1, k2)\<close> whose values hold single colons,
  none of them the separator \<open>::\<close>: a source with the rows of keys \<open>(a:, b)\<close> and
  \<open>(a, :b)\<close>, a source with the first of them only, and an empty target.\<close>

definition colon_source :: conn where
  "colon_source =
     demo_db [''k1'', ''k2''] [''k1'', ''k2'', ''v'']
       [[(''k1'', ''a:''), (''k2'', ''b''), (''v'', ''x'')],
        [(''k1'', ''a''), (''k2'', '':b''), (''v'', ''y'')]]"

definition colon_source_one :: conn where
  "colon_source_one =
     demo_db [''k1'', ''k2''] [''k1'', ''k2'', ''v'']
       [[(''k1'', ''a:''), (''k2'', ''b''), (''v'', ''x'')]]"

definition colon_target :: conn where
  "colon_target = demo_db [''k1'', ''k2''] [''k1'', ''k2'', ''v''] []"

section \<open>Properties of identifiers and keys\<close>

lemma trim_no_quote: "c \<notin> set s \<Longrightarrow> strings_Trim s c = s"
proof -
  assume a: "c \<notin> set s"
  have "dropWhile (\<lambda>x. x = c) s = s"
    using a by (cases s) auto
  moreover have "dropWhile (\<lambda>x. x = c) (rev s) = rev s"
    using a by (cases "rev s") (auto simp: Cons_eq_append_conv dest: arg_cong [where f = set])
  ultimately show ?thesis
    by (simp add: strings_Trim_def)
qed

lemma trim_quoted: "dquote \<notin> set s \<Longrightarrow> strings_Trim (dquote # s @ [dquote]) dquote = s"
proof -
  assume a: "dquote \<notin> set s"
  have 1: "dropWhile (\<lambda>x. x = dquote) (s @ [dquote]) = (if s = [] then [] else s @ [dquote])"
    using a by (cases s) auto
  have 2: "dropWhile (\<lambda>x. x = dquote) (rev s) = rev s"
    using a by (cases "rev s") (auto simp: Cons_eq_append_conv dest: arg_cong [where f = set])
  show ?thesis
    using 1 2 by (simp add: strings_Trim_def)
qed

lemma replace_no_quote: "c \<notin> set s \<Longrightarrow> strings_ReplaceAll s c new = s"
  by (induction s) (auto simp: strings_ReplaceAll_def)

lemma quote_plain: "dquote \<notin> set s \<Longrightarrow> quoteIdentifier s = dquote # s @ [dquote]"
  by (simp add: quoteIdentifier_def trim_no_quote replace_no_quote)

lemma quote_quoted: "dquote \<notin> set s \<Longrightarrow> quoteIdentifier (dquote # s @ [dquote]) = dquote # s @ [dquote]"
  by (simp add: quoteIdentifier_def trim_quoted replace_no_quote)

lemma requote_plain: "dquote \<notin> set s \<Longrightarrow> quoteIdentifier (quoteIdentifier s) = quoteIdentifier s"
  by (simp add: quote_plain quote_quoted)

lemma where_eq_build: "where_eq (map quoteIdentifier pkCols) = buildWhereClause pkCols"
  by (simp add: where_eq_def buildWhereClause_def zip_map2 case_prod_unfold comp_def)

lemma buildWhereClause_after_join:
  assumes "\<forall>c \<in> set cols. dquote \<notin> set c"
  shows "buildWhereClause (snd (joinIdentifiers cols)) = buildWhereClause cols"
proof -
  have "map quoteIdentifier (map quoteIdentifier cols) = map quoteIdentifier cols"
    using assms by (simp add: requote_plain)
  then show ?thesis
    by (metis where_eq_build joinIdentifiers_def snd_conv)
qed

lemma undouble_plain: "dquote \<notin> set s \<Longrightarrow> undouble s = Some s"
  by (induction s rule: undouble.induct) auto

lemma ident_name_quoted: "dquote \<notin> set s \<Longrightarrow> ident_name (dquote # s @ [dquote]) = Some s"
  by (simp add: ident_name_def undouble_plain)

lemma ident_name_quote: "dquote \<notin> set s \<Longrightarrow> ident_name (quoteIdentifier s) = Some s"
  by (simp add: quote_plain ident_name_quoted)

text \<open>The text of the statements is what lines 174 to 177, 275 to 282, 290 to 293 and 313
  to 316 print into their format strings; and the two indexed reads of the program,
  \<open>pkValues[0]\<close> (line 190) and \<open>parts[0]\<close> (line 447), are in range.\<close>

lemma select_text:
  "sql_text (selectQuery (snd (joinIdentifiers cols)) schema tableName pkCols pkValues) =
     ''SELECT '' @ fst (joinIdentifiers cols) @ '' FROM '' @ quoteIdentifier schema @ ''.''
       @ quoteIdentifier tableName @ '' WHERE '' @ buildWhereClause pkCols"
  by (simp add: selectQuery_def joinIdentifiers_def Let_def where_eq_build)

lemma delete_text:
  "sql_text (deleteQuery schema tableName pkCols pkValues) =
     ''DELETE FROM '' @ quoteIdentifier schema @ ''.'' @ quoteIdentifier tableName
       @ '' WHERE '' @ buildWhereClause pkCols"
  by (simp add: deleteQuery_def where_eq_build)

lemma upsert_text:
  "sql_text (upsertQuery schema tableName filteredColNames pkCols columns) =
     ''INSERT INTO '' @ quoteIdentifier schema @ ''.'' @ quoteIdentifier tableName @ '' (''
       @ fst (joinIdentifiers filteredColNames) @ '') VALUES (''
       @ placeholders (length filteredColNames) @ '') ON CONFLICT ('' @ strings_Join pkCols '', ''
       @ '') DO UPDATE SET ''
       @ strings_Join (map (\<lambda>col. quoteIdentifier col @ '' = EXCLUDED.'' @ quoteIdentifier col)
           filteredColNames) '', ''"
  by (simp add: upsertQuery_def joinIdentifiers_def Let_def updateSet_def comp_def)

lemma target_text:
  "sql_text (TargetFingerprints pkCols (quoteIdentifier schema) (quoteIdentifier tableName)
       (map quoteIdentifier pkCols) args) =
     ''SELECT '' @ strings_Join pkCols '', '' @ '', md5(row_to_json(t)::text) AS row_hash FROM ''
       @ quoteIdentifier schema @ ''.'' @ quoteIdentifier tableName @ '' t WHERE ''
       @ strings_Join (map (\<lambda>col. quoteIdentifier col @ '' = ANY($1)'') pkCols) '' AND ''"
  by (simp add: where_any_def comp_def)

lemma splitKey_not_empty: "splitKey key \<noteq> []"
proof -
  have "split_from sep cur s \<noteq> []" for sep cur s
    by (induction sep cur s rule: split_from.induct) auto
  then show ?thesis
    by (simp add: splitKey_def strings_Split_def)
qed

lemma splitSchemaTable_parts: "strings_SplitN2 s sep \<noteq> [] \<and> length (strings_SplitN2 s sep) \<le> 2"
proof -
  have "cut_first sep cur s \<noteq> [] \<and> length (cut_first sep cur s) \<le> 2" for cur
    by (induction sep cur s rule: cut_first.induct) auto
  then show ?thesis by (simp add: strings_SplitN2_def)
qed

text \<open>
  C10. For every identifier that contains no double-quote character, \<open>quoteIdentifier\<close> is
  idempotent: quoting the quoted name gives the quoted name again. (\<open>joinIdentifiers\<close>
  leaves the quoted names in the slice, and \<open>buildWhereClause\<close> quotes them again:
  lemma \<open>buildWhereClause_after_join\<close>.)
\<close>

theorem quoteIdentifier_idempotent:
  "dquote \<notin> set identifier \<Longrightarrow>
     quoteIdentifier (quoteIdentifier identifier) = quoteIdentifier identifier"
  by (simp add: quote_plain quote_quoted)

theorem quoteIdentifier_idempotent_witness:
  "dquote \<notin> set ''order_id'' \<and>
     quoteIdentifier (quoteIdentifier ''order_id'') = quoteIdentifier ''order_id''"
  using quoteIdentifier_idempotent [of "''order_id''"] by (simp add: dquote_def)

lemma split_part_end: "embeddable p \<Longrightarrow> split_from ''::'' cur p = [cur @ p]"
  by (induction p arbitrary: cur rule: embeddable.induct) auto

lemma split_part_sep:
  "embeddable p \<Longrightarrow>
     split_from ''::'' cur (p @ CHR '':'' # CHR '':'' # rest) = (cur @ p) # split_from ''::'' [] rest"
  by (induction p arbitrary: cur rule: embeddable.induct) auto

lemma split_join:
  "ss \<noteq> [] \<Longrightarrow> list_all embeddable ss \<Longrightarrow> split_from ''::'' [] (strings_Join ss ''::'') = ss"
  by (induction ss "''::''" rule: strings_Join.induct) (simp_all add: split_part_end split_part_sep)

lemma key_values_texts: "list_all key_value vals \<Longrightarrow> \<exists>ss. vals = map Some ss \<and> list_all embeddable ss"
proof (induction vals)
  case Nil
  then show ?case by simp
next
  case (Cons v vals)
  then obtain ss where ss: "vals = map Some ss" "list_all embeddable ss"
    by auto
  from Cons.prems obtain s where "v = Some s" "embeddable s"
    by (auto simp: key_value_def split: option.splits)
  with ss have "v # vals = map Some (s # ss) \<and> list_all embeddable (s # ss)"
    by simp
  then show ?case by (rule exI [where x = "s # ss"])
qed

lemma split_make: 
  assumes "vals \<noteq> []" and "list_all key_value vals"
  shows "splitKey (makeKey vals) = vals"
proof -
  from assms(2) obtain ss where ss: "vals = map Some ss" "list_all embeddable ss"
    using key_values_texts by blast
  with assms(1) have "ss \<noteq> []" by auto
  have "map sprint_v (map Some ss) = ss"
    by (induction ss) (simp_all add: sprint_v_def)
  then have "makeKey vals = strings_Join ss ''::''"
    by (simp add: makeKey_def ss(1))
  then show ?thesis
    using split_join [OF \<open>ss \<noteq> []\<close> ss(2)] by (simp add: splitKey_def strings_Split_def ss(1))
qed

text \<open>Where the encoding can be read back: for key tuples that are not empty and whose
  values are texts without two adjacent colons and without a colon at the end, splitting
  the encoded key gives the tuple back.\<close>

lemma makeKey_splitKey_roundtrip:
  assumes "vals \<noteq> []" and "list_all key_value vals"
    and "vals' \<noteq> []" and "list_all key_value vals'"
  shows "splitKey (makeKey vals) = vals \<and> (makeKey vals = makeKey vals' \<longleftrightarrow> vals = vals')"
proof -
  have 1: "splitKey (makeKey vals) = vals"
    using assms(1,2) by (rule split_make)
  have 2: "splitKey (makeKey vals') = vals'"
    using assms(3,4) by (rule split_make)
  from 1 2 have "makeKey vals = makeKey vals' \<Longrightarrow> vals = vals'"
    by metis
  with 1 show ?thesis by blast
qed

text \<open>
  C4. The encoding is not a bijection, also on key values that do not hold the separator
  \<open>::\<close>: the key tuples \<open>(a:, b)\<close> and \<open>(a, :b)\<close> are different rows with the one
  encoded key \<open>a:::b\<close>, and splitting that key gives \<open>(a, :b)\<close>. With both rows in the
  source, the source mapping has one entry, the run returns \<open>nil\<close> and only the row of key
  \<open>(a, :b)\<close> reaches the target; with the row of key \<open>(a:, b)\<close> alone, the row query
  of line 294 looks for key \<open>(a, :b)\<close>, finds no row and the run fails.
\<close>

theorem makeKey_collision:
  "makeKey [Some ''a:'', Some ''b''] = makeKey [Some ''a'', Some '':b'']
   \<and> [Some ''a:'', Some ''b''] \<noteq> [Some ''a'', Some '':b'']
   \<and> makeKey [Some ''a:'', Some ''b''] = ''a:::b''
   \<and> splitKey (makeKey [Some ''a:'', Some ''b'']) = [Some ''a'', Some '':b'']
   \<and> fst (fetchSourceData colon_source [quoteIdentifier ''k1'', quoteIdentifier ''k2'']
          ''public'' ''items'' [])
       = Inr [(''a:::b'', ''k1=a;k2=:b;v=y;'')]
   \<and> fst (makeTableSame colon_source colon_target ''items'' [] False False) = None
   \<and> stored (snd (snd (makeTableSame colon_source colon_target ''items'' [] False False)))
       = [[(''k1'', ''a''), (''k2'', '':b''), (''v'', ''y'')]]
   \<and> fst (makeTableSame colon_source_one colon_target ''items'' [] False False)
       = Some (ErrScanSourceRow NoRows)
   \<and> stored (snd (snd (makeTableSame colon_source_one colon_target ''items'' [] False False)))
       = []"
  by code_simp

section \<open>The classification of keys\<close>

lemma diff_source_lists:
  "diff_source force T S (ins, ups) =
     (ins @ map fst (filter (\<lambda>(k, h). map_of T k = None) S),
      ups @ map fst (filter (\<lambda>(k, h). case map_of T k of None \<Rightarrow> False | Some th \<Rightarrow> force \<or> h \<noteq> th) S))"
proof (induction S arbitrary: ins ups)
  case Nil
  then show ?case by simp
next
  case (Cons e S)
  obtain k h where e: "e = (k, h)" by (cases e)
  show ?case
  proof (cases "map_of T k")
    case None
    then show ?thesis
      using Cons.IH [of "ins @ [k]" ups] unfolding e by simp
  next
    case (Some th)
    show ?thesis
    proof (cases "force \<or> h \<noteq> th")
      case True
      then show ?thesis
        using Cons.IH [of ins "ups @ [k]"] Some unfolding e by auto
    next
      case False
      then show ?thesis
        using Cons.IH [of ins ups] Some unfolding e by auto
    qed
  qed
qed

lemma diff_target_list:
  "diff_target S T del = del @ map fst (filter (\<lambda>(k, h). map_of S k = None) T)"
proof (induction T arbitrary: del)
  case Nil
  then show ?case by simp
next
  case (Cons e T)
  obtain k h where e: "e = (k, h)" by (cases e)
  show ?case
    unfolding e by (cases "map_of S k") (simp_all add: Cons.IH)
qed

lemma classify_lists:
  "classify force S T =
     (map fst (filter (\<lambda>(k, h). map_of T k = None) S),
      map fst (filter (\<lambda>(k, h). case map_of T k of None \<Rightarrow> False | Some th \<Rightarrow> force \<or> h \<noteq> th) S),
      map fst (filter (\<lambda>(k, h). map_of S k = None) T))"
  by (simp add: classify_def diff_source_lists diff_target_list)

lemma map_of_Some_key: "map_of m k = Some v \<Longrightarrow> k \<in> fst ` set m"
  by (metis map_of_eq_None_iff option.distinct(1))

lemma insert_keys: "set (map fst (filter (\<lambda>(k, h). map_of T k = None) S)) = fst ` set S - fst ` set T"
  by (auto simp: map_of_eq_None_iff image_iff)

lemma upsert_keys_sub:
  "set (map fst (filter (\<lambda>(k, h). case map_of T k of None \<Rightarrow> False | Some th \<Rightarrow> force \<or> h \<noteq> th) S))
     \<subseteq> fst ` set S \<inter> fst ` set T"
proof
  fix k
  assume "k \<in> set (map fst (filter (\<lambda>(k, h). case map_of T k of None \<Rightarrow> False | Some th \<Rightarrow> force \<or> h \<noteq> th) S))"
  then obtain h where h: "(k, h) \<in> set S"
    and c: "case map_of T k of None \<Rightarrow> False | Some th \<Rightarrow> force \<or> h \<noteq> th"
    by auto
  from c obtain th where "map_of T k = Some th"
    by (cases "map_of T k") simp_all
  then have "k \<in> fst ` set T"
    by (rule map_of_Some_key)
  moreover from h have "k \<in> fst ` set S"
    by force
  ultimately show "k \<in> fst ` set S \<inter> fst ` set T"
    by simp
qed

lemma unchanged_keys_sub: "set (unchanged force S T) \<subseteq> fst ` set S \<inter> fst ` set T"
proof
  fix k
  assume "k \<in> set (unchanged force S T)"
  then obtain h where h: "(k, h) \<in> set S"
    and c: "case map_of T k of None \<Rightarrow> False | Some th \<Rightarrow> \<not> (force \<or> h \<noteq> th)"
    by (auto simp: unchanged_def)
  from c obtain th where "map_of T k = Some th"
    by (cases "map_of T k") simp_all
  then have "k \<in> fst ` set T"
    by (rule map_of_Some_key)
  moreover from h have "k \<in> fst ` set S"
    by force
  ultimately show "k \<in> fst ` set S \<inter> fst ` set T"
    by simp
qed

lemma shared_keys_split:
  "fst ` set S \<inter> fst ` set T \<subseteq>
     set (map fst (filter (\<lambda>(k, h). case map_of T k of None \<Rightarrow> False | Some th \<Rightarrow> force \<or> h \<noteq> th) S))
     \<union> set (unchanged force S T)"
proof
  fix k assume "k \<in> fst ` set S \<inter> fst ` set T"
  then have kS: "k \<in> fst ` set S" and kT: "k \<in> fst ` set T"
    by simp_all
  from kS obtain h where h: "(k, h) \<in> set S"
    by force
  from kT have "map_of T k \<noteq> None"
    by (simp add: map_of_eq_None_iff)
  then obtain th where th: "map_of T k = Some th"
    by blast
  show "k \<in> set (map fst (filter (\<lambda>(k, h). case map_of T k of None \<Rightarrow> False | Some th \<Rightarrow> force \<or> h \<noteq> th) S))
     \<union> set (unchanged force S T)"
  proof (cases "force \<or> h \<noteq> th")
    case True
    with h th have "(k, h) \<in> set (filter (\<lambda>(k, h). case map_of T k of None \<Rightarrow> False | Some th \<Rightarrow> force \<or> h \<noteq> th) S)"
      by simp
    then show ?thesis by force
  next
    case False
    with h th have "(k, h) \<in> set (filter (\<lambda>(k, h). case map_of T k of None \<Rightarrow> False | Some th \<Rightarrow> \<not> (force \<or> h \<noteq> th)) S)"
      by simp
    then show ?thesis unfolding unchanged_def by force
  qed
qed

lemma unchanged_not_upsert:
  assumes "distinct (map fst S)"
  shows "set (unchanged force S T) \<inter>
     set (map fst (filter (\<lambda>(k, h). case map_of T k of None \<Rightarrow> False | Some th \<Rightarrow> force \<or> h \<noteq> th) S)) = {}"
proof -
  have same: "h = h'" if "(k, h) \<in> set S" "(k, h') \<in> set S" for k h h'
    using assms that by (meson eq_key_imp_eq_value)
  {
    fix k
    assume u: "k \<in> set (unchanged force S T)"
      and p: "k \<in> set (map fst (filter (\<lambda>(k, h). case map_of T k of None \<Rightarrow> False | Some th \<Rightarrow> force \<or> h \<noteq> th) S))"
    from u obtain h where h: "(k, h) \<in> set S"
      and c: "case map_of T k of None \<Rightarrow> False | Some th \<Rightarrow> \<not> (force \<or> h \<noteq> th)"
      by (auto simp: unchanged_def)
    from p obtain h' where h': "(k, h') \<in> set S"
      and c': "case map_of T k of None \<Rightarrow> False | Some th \<Rightarrow> force \<or> h' \<noteq> th"
      by auto
    from h h' have "h = h'" by (rule same)
    with c c' have False
      by (cases "map_of T k") simp_all
  }
  then show ?thesis by blast
qed

text \<open>
  C5. For every pair of fingerprint mappings and either value of the force flag, the keys
  to insert, to upsert and to delete are pairwise disjoint, each of them is a key of the
  source or of the target mapping, and together with the unchanged keys they are exactly
  the keys of the two mappings. (For a source mapping with distinct keys, as every Go map
  has, the unchanged keys are disjoint from the three lists as well.)
\<close>

theorem classify_partition:
  "case classify force S T of
     (ins, ups, del) \<Rightarrow>
       set ins \<inter> set ups = {} \<and> set ins \<inter> set del = {} \<and> set ups \<inter> set del = {}
       \<and> set ins \<union> set ups \<union> set del \<subseteq> fst ` set S \<union> fst ` set T
       \<and> set ins \<union> set ups \<union> set del \<union> set (unchanged force S T) = fst ` set S \<union> fst ` set T
       \<and> (distinct (map fst S) \<longrightarrow>
            set (unchanged force S T) \<inter> (set ins \<union> set ups \<union> set del) = {})"
proof -
  define ins where "ins = map fst (filter (\<lambda>(k, h). map_of T k = None) S)"
  define ups where "ups = map fst (filter (\<lambda>(k, h). case map_of T k of None \<Rightarrow> False | Some th \<Rightarrow> force \<or> h \<noteq> th) S)"
  define del where "del = map fst (filter (\<lambda>(k, h). map_of S k = None) T)"
  define un where "un = unchanged force S T"
  define A where "A = fst ` set S"
  define B where "B = fst ` set T"
  have cl: "classify force S T = (ins, ups, del)"
    by (simp add: classify_lists ins_def ups_def del_def)
  have i: "set ins = A - B" unfolding ins_def A_def B_def by (rule insert_keys)
  have d: "set del = B - A" unfolding del_def A_def B_def by (rule insert_keys)
  have u: "set ups \<subseteq> A \<inter> B" unfolding ups_def A_def B_def by (rule upsert_keys_sub)
  have n: "set un \<subseteq> A \<inter> B" unfolding un_def A_def B_def by (rule unchanged_keys_sub)
  have c: "A \<inter> B \<subseteq> set ups \<union> set un" unfolding ups_def un_def A_def B_def by (rule shared_keys_split)
  have x: "distinct (map fst S) \<Longrightarrow> set un \<inter> set ups = {}"
    unfolding ups_def un_def by (rule unchanged_not_upsert)
  have 1: "set ins \<inter> set ups = {}" using i u by blast
  have 2: "set ins \<inter> set del = {}" using i d by blast
  have 3: "set ups \<inter> set del = {}" using d u by blast
  have 4: "set ins \<union> set ups \<union> set del \<subseteq> A \<union> B" using i d u by blast
  have 5: "set ins \<union> set ups \<union> set del \<union> set un = A \<union> B"
    using i d u n c by blast
  have 6: "distinct (map fst S) \<longrightarrow> set un \<inter> (set ins \<union> set ups \<union> set del) = {}"
    using i d n x by blast
  show ?thesis
    unfolding cl prod.case using 1 2 3 4 5 6 unfolding un_def A_def B_def by (intro conjI)
qed

theorem classify_partition_witness:
  "distinct (map fst [(''1'', ''h1''), (''2'', ''h2''), (''4'', ''h4'')])
   \<and> classify False [(''1'', ''h1''), (''2'', ''h2''), (''4'', ''h4'')]
        [(''2'', ''x''), (''3'', ''h3''), (''4'', ''h4'')] = ([''1''], [''2''], [''3''])
   \<and> unchanged False [(''1'', ''h1''), (''2'', ''h2''), (''4'', ''h4'')]
        [(''2'', ''x''), (''3'', ''h3''), (''4'', ''h4'')] = [''4'']
   \<and> set [''4''] \<inter> (set [''1''] \<union> set [''2''] \<union> set [''3'']) = {}"
  using classify_partition [where force = False and S = "[(''1'', ''h1''), (''2'', ''h2''), (''4'', ''h4'')]"
      and T = "[(''2'', ''x''), (''3'', ''h3''), (''4'', ''h4'')]"]
  by (simp add: classify_def unchanged_def)

section \<open>What a run leaves unchanged on the target\<close>

lemma rows_kept_refl: "rows_kept c c"
  by (simp add: rows_kept_def)

lemma rows_kept_trans: "rows_kept a b \<Longrightarrow> rows_kept b c \<Longrightarrow> rows_kept a c"
  by (cases a, cases b, cases c) (simp add: rows_kept_def)

lemma rows_kept_stored: "rows_kept c c' \<Longrightarrow> stored c' = stored c"
  by (cases c, cases c') (simp add: rows_kept_def)


lemma rows_kept_txn: "rows_kept c c' \<Longrightarrow> rows_kept c (c'\<lparr>txn := w\<rparr>)"
  by (cases c, cases c') (simp add: rows_kept_def)

lemma send_kept: "send rq c = (f, c') \<Longrightarrow> rows_kept c c' \<and> txn c' = txn c"
  by (cases c) (auto simp: send_def rows_kept_def)

lemma tx_begin_kept: "tx_begin c = (r, c') \<Longrightarrow> rows_kept c c' \<and> (r \<noteq> None \<longrightarrow> txn c' = txn c)"
  by (cases c) (auto simp: tx_begin_def send_def rows_kept_def split: option.splits)

lemma tx_exec_kept: "tx_exec rq c = (r, c') \<Longrightarrow> rows_kept c c' \<and> (txn c' = None \<longleftrightarrow> txn c = None)"
  by (cases c) (auto simp: tx_exec_def send_def rows_kept_def split: option.splits sum.splits)

lemma tx_rollback_kept: "tx_rollback c = (r, c') \<Longrightarrow> rows_kept c c' \<and> (txn c' = None)"
  by (cases c) (auto simp: tx_rollback_def send_def rows_kept_def split: option.splits)

lemma tx_commit_kept: "tx_commit c = (r, c') \<Longrightarrow> txn c' = None \<and> (r \<noteq> None \<longrightarrow> rows_kept c c')"
  by (cases c) (auto simp: tx_commit_def send_def rows_kept_def split: option.splits)

lemma fetchTargetData_kept:
  "fetchTargetData c pkCols schema tableName keys = (r, c') \<Longrightarrow> rows_kept c c' \<and> txn c' = txn c"
  by (auto simp: fetchTargetData_def Let_def split: prod.splits option.splits sum.splits dest: send_kept)

lemma upsert_rows_kept:
  "upsert_rows schema tableName pkCols cols keys s t = (r, s', t') \<Longrightarrow>
     rows_kept t t' \<and> (txn t' = None \<longleftrightarrow> txn t = None)"
proof (induction keys arbitrary: s t)
  case Nil
  then show ?case by (simp add: rows_kept_refl)
next
  case (Cons key keys)
  show ?case
  proof (cases "query_row (selectQuery cols schema tableName pkCols (splitKey key)) s")
    case (Pair a s1)
    show ?thesis
    proof (cases a)
      case (Inl e)
      with Pair Cons.prems show ?thesis by (auto simp: rows_kept_refl)
    next
      case (Inr columns)
      show ?thesis
      proof (cases "tx_exec (upsertQuery schema tableName cols pkCols columns) t")
        case (Pair b t1)
        note ex = tx_exec_kept [OF Pair]
        show ?thesis
        proof (cases b)
          case None
          with Pair Inr \<open>query_row _ s = (a, s1)\<close> Cons.prems
          have "upsert_rows schema tableName pkCols cols keys s1 t1 = (r, s', t')" by simp
          from Cons.IH [OF this] ex show ?thesis by (auto intro: rows_kept_trans)
        next
          case (Some e)
          with Pair Inr \<open>query_row _ s = (a, s1)\<close> Cons.prems ex show ?thesis by auto
        qed
      qed
    qed
  qed
qed

lemma delete_rows_kept:
  "delete_rows schema tableName pkCols keys t = (r, t') \<Longrightarrow>
     rows_kept t t' \<and> (txn t' = None \<longleftrightarrow> txn t = None)"
proof (induction keys arbitrary: t)
  case Nil
  then show ?case by (simp add: rows_kept_refl)
next
  case (Cons key keys)
  show ?case
  proof (cases "tx_exec (deleteQuery schema tableName pkCols (splitKey key)) t")
    case (Pair b t1)
    note ex = tx_exec_kept [OF Pair]
    show ?thesis
    proof (cases b)
      case None
      with Pair Cons.prems have "delete_rows schema tableName pkCols keys t1 = (r, t')" by simp
      from Cons.IH [OF this] ex show ?thesis by (auto intro: rows_kept_trans)
    next
      case (Some e)
      with Pair Cons.prems ex show ?thesis by auto
    qed
  qed
qed


lemma deferred_rollback_kept:
  "rows_kept t (deferred_rollback err t) \<and> (err \<noteq> None \<longrightarrow> txn (deferred_rollback err t) = None)
   \<and> (txn t = None \<longrightarrow> txn (deferred_rollback err t) = None)"
proof (cases "tx_rollback t")
  case (Pair e t1)
  from tx_rollback_kept [OF Pair] Pair show ?thesis
    by (simp add: deferred_rollback_def rows_kept_refl)
qed

lemma applyPatch_kept:
  assumes "applyPatch schema tableName pkCols cols S T dryRun force s t = (r, s', t')"
  shows "(r \<noteq> None \<or> dryRun \<longrightarrow> rows_kept t t') \<and> (r = None \<longrightarrow> txn t' = None)"
proof (cases "tx_exec SetConstraintsDeferred t")
  case (Pair e1 t1)
  note k1 = tx_exec_kept [OF Pair]
  show ?thesis
  proof (cases e1)
    case (Some e)
    with Pair assms k1 show ?thesis by (auto simp: applyPatch_def)
  next
    case None
    obtain ins ups del where cl: "classify force S T = (ins, ups, del)"
      by (cases "classify force S T") auto
    obtain e2 s2 t2 where up: "upsert_rows schema tableName pkCols cols (ins @ ups) s t1 = (e2, s2, t2)"
      by (cases "upsert_rows schema tableName pkCols cols (ins @ ups) s t1") auto
    note k2 = upsert_rows_kept [OF up]
    from k1 k2 have k12: "rows_kept t t2" by (blast intro: rows_kept_trans)
    show ?thesis
    proof (cases e2)
      case (Some e)
      with Pair None cl up assms k12 show ?thesis by (auto simp: applyPatch_def)
    next
      case e2: None
      obtain e3 t3 where de: "delete_rows schema tableName pkCols del t2 = (e3, t3)"
        by (cases "delete_rows schema tableName pkCols del t2") auto
      note k3 = delete_rows_kept [OF de]
      from k12 k3 have k13: "rows_kept t t3" by (blast intro: rows_kept_trans)
      show ?thesis
      proof (cases e3)
        case (Some e)
        with Pair None cl up e2 de assms k13 show ?thesis by (auto simp: applyPatch_def)
      next
        case e3: None
        show ?thesis
        proof (cases dryRun)
          case True
          obtain e4 t4 where rb: "tx_rollback t3 = (e4, t4)"
            by (cases "tx_rollback t3") auto
          from tx_rollback_kept [OF rb] k13 have "rows_kept t t4" "txn t4 = None"
            by (blast intro: rows_kept_trans)+
          with Pair None cl up e2 de e3 True rb assms show ?thesis
            by (cases e4) (auto simp: applyPatch_def)
        next
          case False
          obtain e4 t4 where cm: "tx_commit t3 = (e4, t4)"
            by (cases "tx_commit t3") auto
          from tx_commit_kept [OF cm] k13 have "e4 \<noteq> None \<longrightarrow> rows_kept t t4" "txn t4 = None"
            by (blast intro: rows_kept_trans)+
          with Pair None cl up e2 de e3 False cm assms show ?thesis
            by (cases e4) (auto simp: applyPatch_def)
        qed
      qed
    qed
  qed
qed

lemma synchronize_kept:
  assumes "synchronize schema tableName pkCols cols S dryRun force s t = (r, s', t')"
  shows "(r \<noteq> None \<or> dryRun \<longrightarrow> rows_kept t t') \<and> (txn t = None \<longrightarrow> txn t' = None)"
proof (cases "length (map fst S) = 0")
  case True
  with assms show ?thesis by (simp add: synchronize_def rows_kept_refl)
next
  case False
  obtain a t1 where ft: "fetchTargetData t pkCols schema tableName (map fst S) = (a, t1)"
    by (cases "fetchTargetData t pkCols schema tableName (map fst S)") auto
  note k1 = fetchTargetData_kept [OF ft]
  show ?thesis
  proof (cases a)
    case (Inl e)
    with False ft assms k1 show ?thesis by (auto simp: synchronize_def)
  next
    case (Inr T)
    obtain e2 t2 where bg: "tx_begin t1 = (e2, t2)"
      by (cases "tx_begin t1") auto
    note k2 = tx_begin_kept [OF bg]
    from k1 k2 have k12: "rows_kept t t2" by (blast intro: rows_kept_trans)
    show ?thesis
    proof (cases e2)
      case (Some e)
      with False ft Inr bg assms k12 k1 k2 show ?thesis by (auto simp: synchronize_def)
    next
      case None
      obtain e3 s3 t3 where ap: "applyPatch schema tableName pkCols cols S T dryRun force s t2 = (e3, s3, t3)"
        by (cases "applyPatch schema tableName pkCols cols S T dryRun force s t2") auto
      note k3 = applyPatch_kept [OF ap]
      note k4 = deferred_rollback_kept [of t3 e3]
      from False ft Inr bg None ap assms have res: "r = e3" "t' = deferred_rollback e3 t3"
        by (auto simp: synchronize_def)
      have a: "r \<noteq> None \<or> dryRun \<longrightarrow> rows_kept t t'"
        using res k12 k3 k4 by (blast intro: rows_kept_trans)
      have b: "txn t' = None"
        using res k3 k4 by (cases e3) auto
      from a b show ?thesis by simp
    qed
  qed
qed

lemma makeTableSame_kept:
  assumes "makeTableSame s t table_arg where_arg dryRun force = (r, s', t')"
  shows "(r \<noteq> None \<or> dryRun \<longrightarrow> rows_kept t t') \<and> (txn t = None \<longrightarrow> txn t' = None)"
  using assms unfolding makeTableSame_def Let_def
  by (auto split: prod.splits sum.splits if_splits simp: rows_kept_refl dest: synchronize_kept)

lemma only_issues_iff: "only_issues P c c' \<longleftrightarrow> (\<exists>xs. issued c' = issued c @ xs \<and> list_all P xs)"
proof
  assume u: "only_issues P c c'"
  then have "issued c' = issued c @ issued_since c c'"
    unfolding only_issues_def issued_since_def by (metis append_take_drop_id)
  with u show "\<exists>xs. issued c' = issued c @ xs \<and> list_all P xs"
    unfolding only_issues_def by blast
next
  assume "\<exists>xs. issued c' = issued c @ xs \<and> list_all P xs"
  then show "only_issues P c c'"
    by (auto simp: only_issues_def issued_since_def)
qed

lemma only_issues_refl: "only_issues P c c"
  by (simp add: only_issues_iff)

lemma only_issues_trans: "only_issues P a b \<Longrightarrow> only_issues P b c \<Longrightarrow> only_issues P a c"
  unfolding only_issues_iff by auto

lemma send_only: "send rq c = (f, c') \<Longrightarrow> P rq \<Longrightarrow> only_issues P c c'"
  by (auto simp: send_def only_issues_iff)

lemma tx_begin_only: "tx_begin c = (r, c') \<Longrightarrow> P Begin \<Longrightarrow> only_issues P c c'"
  by (auto simp: tx_begin_def send_def only_issues_iff split: option.splits)

lemma tx_exec_only: "tx_exec rq c = (r, c') \<Longrightarrow> P rq \<Longrightarrow> only_issues P c c'"
  by (auto simp: tx_exec_def send_def only_issues_iff split: option.splits sum.splits)

lemma tx_rollback_only: "tx_rollback c = (r, c') \<Longrightarrow> P Rollback \<Longrightarrow> only_issues P c c'"
  by (auto simp: tx_rollback_def send_def only_issues_iff split: option.splits)

lemma tx_commit_only: "tx_commit c = (r, c') \<Longrightarrow> P Commit \<Longrightarrow> only_issues P c c'"
  by (auto simp: tx_commit_def send_def only_issues_iff split: option.splits)

lemma deferred_rollback_only: "P Rollback \<Longrightarrow> only_issues P t (deferred_rollback err t)"
proof (cases "tx_rollback t")
  case (Pair e t1)
  assume "P Rollback"
  with tx_rollback_only [where P = P, OF Pair] Pair show ?thesis
    by (simp add: deferred_rollback_def only_issues_refl)
qed

lemma query_row_only: "query_row rq c = (r, c') \<Longrightarrow> P rq \<Longrightarrow> only_issues P c c'"
  by (auto simp: query_row_def send_def only_issues_iff split: option.splits)

lemma getPrimaryKeyColumns_only:
  "getPrimaryKeyColumns c schema tableName = (r, c') \<Longrightarrow> P (PrimaryKeyLookup tableName schema)
     \<Longrightarrow> only_issues P c c'"
  by (auto simp: getPrimaryKeyColumns_def send_def only_issues_iff)

lemma getColumnNames_only:
  "getColumnNames c schema tableName = (r, c') \<Longrightarrow> P (ColumnLookup schema tableName)
     \<Longrightarrow> only_issues P c c'"
  by (auto simp: getColumnNames_def send_def only_issues_iff)

lemma fetchSourceData_only:
  "fetchSourceData c pkCols schema tableName wh = (r, c') \<Longrightarrow>
     P (SourceFingerprints pkCols (quoteIdentifier schema) (quoteIdentifier tableName) wh)
     \<Longrightarrow> only_issues P c c'"
  by (auto simp: fetchSourceData_def Let_def split: prod.splits sum.splits dest: send_only)

lemma fetchTargetData_only:
  "fetchTargetData c pkCols schema tableName keys = (r, c') \<Longrightarrow>
     (\<And>args. P (TargetFingerprints pkCols (quoteIdentifier schema) (quoteIdentifier tableName)
                  (map quoteIdentifier pkCols) args))
     \<Longrightarrow> only_issues P c c'"
  by (auto simp: fetchTargetData_def Let_def split: prod.splits option.splits sum.splits
      dest: send_only)

lemma upsert_rows_only:
  assumes "\<And>pkValues. Q (selectQuery cols schema tableName pkCols pkValues)"
    and "\<And>columns. P (upsertQuery schema tableName cols pkCols columns)"
  shows "upsert_rows schema tableName pkCols cols keys s t = (r, s', t') \<Longrightarrow>
           only_issues Q s s' \<and> only_issues P t t'"
proof (induction keys arbitrary: s t)
  case Nil
  then show ?case by (simp add: only_issues_refl)
next
  case (Cons key keys)
  obtain a s1 where q: "query_row (selectQuery cols schema tableName pkCols (splitKey key)) s = (a, s1)"
    by (cases "query_row (selectQuery cols schema tableName pkCols (splitKey key)) s") auto
  have us: "only_issues Q s s1"
    using q assms(1) by (rule query_row_only)
  show ?case
  proof (cases a)
    case (Inl e)
    with q Cons.prems us show ?thesis by (auto simp: only_issues_refl)
  next
    case (Inr columns)
    obtain b t1 where x: "tx_exec (upsertQuery schema tableName cols pkCols columns) t = (b, t1)"
      by (cases "tx_exec (upsertQuery schema tableName cols pkCols columns) t") auto
    have ut: "only_issues P t t1"
      using x assms(2) by (rule tx_exec_only)
    show ?thesis
    proof (cases b)
      case None
      with x Inr q Cons.prems
      have "upsert_rows schema tableName pkCols cols keys s1 t1 = (r, s', t')" by simp
      from Cons.IH [OF this] us ut show ?thesis by (blast intro: only_issues_trans)
    next
      case (Some e)
      with x Inr q Cons.prems us ut show ?thesis by auto
    qed
  qed
qed

lemma delete_rows_only:
  assumes "\<And>pkValues. P (deleteQuery schema tableName pkCols pkValues)"
  shows "delete_rows schema tableName pkCols keys t = (r, t') \<Longrightarrow> only_issues P t t'"
proof (induction keys arbitrary: t)
  case Nil
  then show ?case by (simp add: only_issues_refl)
next
  case (Cons key keys)
  obtain b t1 where x: "tx_exec (deleteQuery schema tableName pkCols (splitKey key)) t = (b, t1)"
    by (cases "tx_exec (deleteQuery schema tableName pkCols (splitKey key)) t") auto
  have u: "only_issues P t t1"
    using x assms by (rule tx_exec_only)
  show ?case
  proof (cases b)
    case None
    with x Cons.prems have "delete_rows schema tableName pkCols keys t1 = (r, t')" by simp
    from Cons.IH [OF this] u show ?thesis by (blast intro: only_issues_trans)
  next
    case (Some e)
    with x Cons.prems u show ?thesis by auto
  qed
qed

lemma applyPatch_only:
  assumes run: "applyPatch schema tableName pkCols cols S T dryRun force s t = (r, s', t')"
    and sel: "\<And>pkValues. Q (selectQuery cols schema tableName pkCols pkValues)"
    and ups: "\<And>columns. P (upsertQuery schema tableName cols pkCols columns)"
    and del: "\<And>pkValues. P (deleteQuery schema tableName pkCols pkValues)"
    and plain: "P SetConstraintsDeferred" "P Rollback"
    and com: "dryRun \<or> P Commit"
  shows "only_issues Q s s' \<and> only_issues P t t'"
proof -
  obtain e1 t1 where x1: "tx_exec SetConstraintsDeferred t = (e1, t1)"
    by (cases "tx_exec SetConstraintsDeferred t") auto
  have u1: "only_issues P t t1"
    using x1 plain(1) by (rule tx_exec_only)
  show ?thesis
  proof (cases e1)
    case (Some e)
    with x1 run u1 show ?thesis by (auto simp: applyPatch_def only_issues_refl)
  next
    case None
    obtain ins ups del where cl: "classify force S T = (ins, ups, del)"
      by (cases "classify force S T") auto
    obtain e2 s2 t2 where up: "upsert_rows schema tableName pkCols cols (ins @ ups) s t1 = (e2, s2, t2)"
      by (cases "upsert_rows schema tableName pkCols cols (ins @ ups) s t1") auto
    from upsert_rows_only [of Q cols schema tableName pkCols P, OF sel ups up]
    have us: "only_issues Q s s2" and "only_issues P t1 t2" by simp_all
    with u1 have u2: "only_issues P t t2" by (blast intro: only_issues_trans)
    show ?thesis
    proof (cases e2)
      case (Some e)
      with x1 None cl up run us u2 show ?thesis by (auto simp: applyPatch_def)
    next
      case e2: None
      obtain e3 t3 where de: "delete_rows schema tableName pkCols del t2 = (e3, t3)"
        by (cases "delete_rows schema tableName pkCols del t2") auto
      from u2 delete_rows_only [of P schema tableName pkCols, OF \<open>\<And>pkValues. P (deleteQuery schema tableName pkCols pkValues)\<close> de]
      have u3: "only_issues P t t3" by (rule only_issues_trans)
      show ?thesis
      proof (cases e3)
        case (Some e)
        with x1 None cl up e2 de run us u3 show ?thesis by (auto simp: applyPatch_def)
      next
        case e3: None
        show ?thesis
        proof (cases dryRun)
          case True
          obtain e4 t4 where rb: "tx_rollback t3 = (e4, t4)"
            by (cases "tx_rollback t3") auto
          from u3 tx_rollback_only [where P = P, OF rb plain(2)] have "only_issues P t t4"
            by (rule only_issues_trans)
          with x1 None cl up e2 de e3 True rb run us show ?thesis
            by (cases e4) (auto simp: applyPatch_def)
        next
          case False
          with com have pc: "P Commit" by simp
          obtain e4 t4 where cm: "tx_commit t3 = (e4, t4)"
            by (cases "tx_commit t3") auto
          from u3 tx_commit_only [where P = P, OF cm pc] have "only_issues P t t4"
            by (rule only_issues_trans)
          with x1 None cl up e2 de e3 False cm run us show ?thesis
            by (cases e4) (auto simp: applyPatch_def)
        qed
      qed
    qed
  qed
qed

lemma synchronize_only:
  assumes run: "synchronize schema tableName pkCols cols S dryRun force s t = (r, s', t')"
    and sel: "\<And>pkValues. Q (selectQuery cols schema tableName pkCols pkValues)"
    and ups: "\<And>columns. P (upsertQuery schema tableName cols pkCols columns)"
    and del: "\<And>pkValues. P (deleteQuery schema tableName pkCols pkValues)"
    and tf: "\<And>args. P (TargetFingerprints pkCols (quoteIdentifier schema) (quoteIdentifier tableName)
                  (map quoteIdentifier pkCols) args)"
    and plain: "P Begin" "P SetConstraintsDeferred" "P Rollback"
    and com: "dryRun \<or> P Commit"
  shows "only_issues Q s s' \<and> only_issues P t t'"
proof (cases "length (map fst S) = 0")
  case True
  with run show ?thesis by (simp add: synchronize_def only_issues_refl)
next
  case False
  obtain a t1 where ft: "fetchTargetData t pkCols schema tableName (map fst S) = (a, t1)"
    by (cases "fetchTargetData t pkCols schema tableName (map fst S)") auto
  have u1: "only_issues P t t1"
    using ft tf by (rule fetchTargetData_only)
  show ?thesis
  proof (cases a)
    case (Inl e)
    with False ft run u1 show ?thesis by (auto simp: synchronize_def only_issues_refl)
  next
    case (Inr T)
    obtain e2 t2 where bg: "tx_begin t1 = (e2, t2)"
      by (cases "tx_begin t1") auto
    from u1 tx_begin_only [where P = P, OF bg plain(1)] have u2: "only_issues P t t2"
      by (rule only_issues_trans)
    show ?thesis
    proof (cases e2)
      case (Some e)
      with False ft Inr bg run u2 show ?thesis by (auto simp: synchronize_def only_issues_refl)
    next
      case None
      obtain e3 s3 t3 where ap: "applyPatch schema tableName pkCols cols S T dryRun force s t2 = (e3, s3, t3)"
        by (cases "applyPatch schema tableName pkCols cols S T dryRun force s t2") auto
      from applyPatch_only [where P = P and Q = Q, OF ap sel ups del plain(2,3) com]
      have us: "only_issues Q s s3" and u3: "only_issues P t2 t3" by simp_all
      from False ft Inr bg None ap run have res: "s' = s3" "t' = deferred_rollback e3 t3"
        by (auto simp: synchronize_def)
      from u2 u3 have "only_issues P t t3" by (rule only_issues_trans)
      then have "only_issues P t t'"
        unfolding res using deferred_rollback_only [where P = P, OF plain(3)]
        by (rule only_issues_trans)
      with us res show ?thesis by simp
    qed
  qed
qed

lemma getPrimaryKeyColumns_catalog:
  "getPrimaryKeyColumns c schema tableName = (r, c') \<Longrightarrow> col_decl c' = col_decl c"
  by (auto simp: getPrimaryKeyColumns_def send_def)

lemma getColumnNames_catalog:
  "getColumnNames c schema tableName = (Inr colNames, c') \<Longrightarrow> colNames = col_decl c \<or> colNames = []"
  by (auto simp: getColumnNames_def send_def read_all_def split: option.splits fault.splits if_splits)

lemma makeTableSame_only:
  assumes run: "makeTableSame s t table_arg where_arg dryRun force = (r, s', t')"
    and qplain: "\<And>rq. read_columns rq = [] \<Longrightarrow> written_columns rq = [] \<Longrightarrow> Q rq"
    and pplain: "\<And>rq. read_columns rq = [] \<Longrightarrow> written_columns rq = [] \<Longrightarrow> rq \<noteq> Commit \<Longrightarrow> P rq"
    and sel: "\<And>colNames schema tableName pkCols pkValues.
                colNames = col_decl s \<or> colNames = [] \<Longrightarrow>
                Q (selectQuery (snd (joinIdentifiers (filterColumns colNames))) schema tableName pkCols pkValues)"
    and ups: "\<And>colNames schema tableName pkCols columns.
                colNames = col_decl s \<or> colNames = [] \<Longrightarrow>
                P (upsertQuery schema tableName (snd (joinIdentifiers (filterColumns colNames))) pkCols columns)"
    and com: "dryRun \<or> P Commit"
  shows "only_issues Q s s' \<and> only_issues P t t'"
proof -
  obtain schema tableName where sp: "splitSchemaTable table_arg = (schema, tableName)"
    by (cases "splitSchemaTable table_arg") auto
  obtain a s1 where pk: "getPrimaryKeyColumns s schema tableName = (a, s1)"
    by (cases "getPrimaryKeyColumns s schema tableName") auto
  have q1: "only_issues Q s s1"
    using pk by (rule getPrimaryKeyColumns_only) (simp add: qplain)
  show ?thesis
  proof (cases a)
    case (Inl e)
    with sp pk run q1 show ?thesis by (auto simp: makeTableSame_def only_issues_refl)
  next
    case (Inr pkCols0)
    show ?thesis
    proof (cases "length pkCols0 = 0")
      case True
      with sp pk Inr run q1 show ?thesis by (auto simp: makeTableSame_def only_issues_refl)
    next
      case False
      obtain b s2 where cn: "getColumnNames s1 schema tableName = (b, s2)"
        by (cases "getColumnNames s1 schema tableName") auto
      from q1 getColumnNames_only [where P = Q, OF cn] have q2: "only_issues Q s s2"
        by (simp add: qplain only_issues_trans)
      show ?thesis
      proof (cases b)
        case (Inl e)
        with sp pk Inr False cn run q2 show ?thesis by (auto simp: makeTableSame_def only_issues_refl)
      next
        case colNames: (Inr colNames)
        from cn colNames getColumnNames_catalog getPrimaryKeyColumns_catalog [OF pk]
        have cols: "colNames = col_decl s \<or> colNames = []"
          by metis
        define pkCols where "pkCols = snd (joinIdentifiers pkCols0)"
        define filteredColNames where "filteredColNames = snd (joinIdentifiers (filterColumns colNames))"
        obtain d s3 where fs: "fetchSourceData s2 pkCols schema tableName where_arg = (d, s3)"
          by (cases "fetchSourceData s2 pkCols schema tableName where_arg") auto
        from q2 fetchSourceData_only [where P = Q, OF fs] have q3: "only_issues Q s s3"
          by (simp add: qplain only_issues_trans)
        show ?thesis
        proof (cases d)
          case (Inl e)
          with sp pk Inr False cn colNames fs run q3 show ?thesis
            by (auto simp: makeTableSame_def Let_def pkCols_def only_issues_refl)
        next
          case S: (Inr S)
          from sp pk Inr False cn colNames fs S run
          have sy: "synchronize schema tableName pkCols filteredColNames S dryRun force s3 t = (r, s', t')"
            by (simp add: makeTableSame_def Let_def pkCols_def filteredColNames_def)
          have "only_issues Q s3 s' \<and> only_issues P t t'"
          proof (rule synchronize_only [where P = P and Q = Q, OF sy])
            show "Q (selectQuery filteredColNames schema tableName pkCols pkValues)" for pkValues
              unfolding filteredColNames_def using cols by (rule sel)
            show "P (upsertQuery schema tableName filteredColNames pkCols columns)" for columns
              unfolding filteredColNames_def using cols by (rule ups)
            show "P (deleteQuery schema tableName pkCols pkValues)" for pkValues
              by (rule pplain) (simp_all add: deleteQuery_def)
            show "P (TargetFingerprints pkCols (quoteIdentifier schema) (quoteIdentifier tableName)
                  (map quoteIdentifier pkCols) args)" for args
              by (rule pplain) simp_all
            show "P Begin" "P SetConstraintsDeferred" "P Rollback"
              by (rule pplain; simp)+
            show "dryRun \<or> P Commit" by (rule com)
          qed
          with q3 show ?thesis by (blast intro: only_issues_trans)
        qed
      qed
    qed
  qed
qed







lemma tx_begin_open: "tx_begin c = (None, c') \<Longrightarrow> txn c' \<noteq> None"
  by (auto simp: tx_begin_def send_def split: option.splits)

lemma deferred_rollback_open:
  "txn t \<noteq> None \<Longrightarrow> issued (deferred_rollback (Some e) t) = issued t @ [Rollback]"
  by (auto simp: deferred_rollback_def tx_rollback_def send_def split: option.splits)

lemma fetchSourceData_error: "fetchSourceData c pkCols schema tableName wh = (Inl e, c') \<Longrightarrow> \<not> step_failure e"
  by (auto simp: fetchSourceData_def Let_def read_all_def
      split: prod.splits option.splits sum.splits fault.splits if_splits)

lemma fetchTargetData_error: "fetchTargetData c pkCols schema tableName keys = (Inl e, c') \<Longrightarrow> \<not> step_failure e"
  by (auto simp: fetchTargetData_def Let_def read_all_def
      split: prod.splits option.splits sum.splits fault.splits if_splits)

lemma applyPatch_step_failure:
  assumes "applyPatch schema tableName pkCols cols S T dryRun force s t = (Some e, s', t')"
    and "step_failure e" and "txn t \<noteq> None"
  shows "txn t' \<noteq> None"
proof -
  obtain e1 t1 where x1: "tx_exec SetConstraintsDeferred t = (e1, t1)"
    by (cases "tx_exec SetConstraintsDeferred t") auto
  from tx_exec_kept [OF x1] assms(3) have o1: "txn t1 \<noteq> None" by simp
  show ?thesis
  proof (cases e1)
    case (Some e')
    with x1 assms(1,2) show ?thesis by (auto simp: applyPatch_def)
  next
    case None
    obtain ins ups del where cl: "classify force S T = (ins, ups, del)"
      by (cases "classify force S T") auto
    obtain e2 s2 t2 where up: "upsert_rows schema tableName pkCols cols (ins @ ups) s t1 = (e2, s2, t2)"
      by (cases "upsert_rows schema tableName pkCols cols (ins @ ups) s t1") auto
    from upsert_rows_kept [OF up] o1 have o2: "txn t2 \<noteq> None" by simp
    show ?thesis
    proof (cases e2)
      case (Some e')
      with x1 None cl up assms(1) o2 show ?thesis by (auto simp: applyPatch_def)
    next
      case e2: None
      obtain e3 t3 where de: "delete_rows schema tableName pkCols del t2 = (e3, t3)"
        by (cases "delete_rows schema tableName pkCols del t2") auto
      from delete_rows_kept [OF de] o2 have o3: "txn t3 \<noteq> None" by simp
      show ?thesis
      proof (cases e3)
        case (Some e')
        with x1 None cl up e2 de assms(1) o3 show ?thesis by (auto simp: applyPatch_def)
      next
        case e3: None
        with x1 None cl up e2 de assms(1,2) show ?thesis
          by (auto simp: applyPatch_def split: if_splits prod.splits option.splits)
      qed
    qed
  qed
qed

lemma synchronize_step_failure:
  assumes "synchronize schema tableName pkCols cols S dryRun force s t = (Some e, s', t')"
    and "step_failure e"
  shows "issued t' \<noteq> [] \<and> last (issued t') = Rollback \<and> txn t' = None"
proof (cases "length (map fst S) = 0")
  case True
  with assms show ?thesis by (simp add: synchronize_def)
next
  case False
  obtain a t1 where ft: "fetchTargetData t pkCols schema tableName (map fst S) = (a, t1)"
    by (cases "fetchTargetData t pkCols schema tableName (map fst S)") auto
  show ?thesis
  proof (cases a)
    case (Inl e')
    with False ft assms fetchTargetData_error [of t pkCols schema tableName "map fst S" e' t1]
    show ?thesis by (auto simp: synchronize_def)
  next
    case (Inr T)
    obtain e2 t2 where bg: "tx_begin t1 = (e2, t2)"
      by (cases "tx_begin t1") auto
    show ?thesis
    proof (cases e2)
      case (Some e')
      with False ft Inr bg assms show ?thesis by (auto simp: synchronize_def)
    next
      case None
      with bg have o2: "txn t2 \<noteq> None" by (simp add: tx_begin_open)
      obtain e3 s3 t3 where ap: "applyPatch schema tableName pkCols cols S T dryRun force s t2 = (e3, s3, t3)"
        by (cases "applyPatch schema tableName pkCols cols S T dryRun force s t2") auto
      from False ft Inr bg None ap assms(1) have res: "e3 = Some e" "t' = deferred_rollback e3 t3"
        by (auto simp: synchronize_def)
      from ap res(1) assms(2) o2 have "txn t3 \<noteq> None"
        by (auto dest: applyPatch_step_failure)
      then show ?thesis
        unfolding res using deferred_rollback_kept [of t3 "Some e"]
        by (simp add: deferred_rollback_open)
    qed
  qed
qed

lemma makeTableSame_step_failure:
  assumes "makeTableSame s t table_arg where_arg dryRun force = (Some e, s', t')"
    and "step_failure e"
  shows "issued t' \<noteq> [] \<and> last (issued t') = Rollback \<and> txn t' = None"
  using assms unfolding makeTableSame_def Let_def
  by (auto split: prod.splits sum.splits if_splits
      dest: synchronize_step_failure fetchSourceData_error)

text \<open>
  C9. On every exit with an error the durable rows of the target are its rows before the
  run (nothing of the patch is committed) and no transaction is left open; when the step
  that failed is the reading of a row from the source, an upsert or a delete, the
  transaction has been rolled back: the rollback is the last statement sent.
\<close>

theorem error_exit_keeps_target:
  "case makeTableSame source target table_arg where_arg dryRun force of
     (err, source', target') \<Rightarrow>
       (err \<noteq> None \<longrightarrow>
          stored target' = stored target \<and> rows_kept target target'
          \<and> (txn target = None \<longrightarrow> txn target' = None))
       \<and> (\<forall>e. err = Some e \<and> step_failure e \<longrightarrow>
             txn target' = None \<and> issued target' \<noteq> [] \<and> last (issued target') = Rollback)"
proof (cases "makeTableSame source target table_arg where_arg dryRun force")
  case (fields err source' target')
  have a: "err \<noteq> None \<longrightarrow>
          stored target' = stored target \<and> rows_kept target target'
          \<and> (txn target = None \<longrightarrow> txn target' = None)"
    using makeTableSame_kept [OF fields] by (auto simp: rows_kept_stored)
  have b: "txn target' = None \<and> issued target' \<noteq> [] \<and> last (issued target') = Rollback"
    if "err = Some e" "step_failure e" for e
    using fields that by (auto dest: makeTableSame_step_failure)
  from a b fields show ?thesis
    by auto
qed


theorem error_exit_keeps_target_witness:
  "fst (makeTableSame scenario_source (scenario_target\<lparr>faults := refuse_at 4\<rparr>) ''items'' [] False False)
     = Some (ErrUpsert (Fault Refused))
   \<and> step_failure (ErrUpsert (Fault Refused))
   \<and> txn (scenario_target\<lparr>faults := refuse_at 4\<rparr>) = None
   \<and> stored (snd (snd (makeTableSame scenario_source (scenario_target\<lparr>faults := refuse_at 4\<rparr>)
        ''items'' [] False False)))
     = [[(''id'', ''2''), (''v'', ''old'')], [(''id'', ''3''), (''v'', ''c'')]]
   \<and> txn (snd (snd (makeTableSame scenario_source (scenario_target\<lparr>faults := refuse_at 4\<rparr>)
        ''items'' [] False False))) = None
   \<and> last (issued (snd (snd (makeTableSame scenario_source (scenario_target\<lparr>faults := refuse_at 4\<rparr>)
        ''items'' [] False False)))) = Rollback"
proof -
  have run: "fst (makeTableSame scenario_source (scenario_target\<lparr>faults := refuse_at 4\<rparr>)
      ''items'' [] False False) = Some (ErrUpsert (Fault Refused))"
    by code_simp
  have before: "txn (scenario_target\<lparr>faults := refuse_at 4\<rparr>) = None"
    "stored (scenario_target\<lparr>faults := refuse_at 4\<rparr>)
       = [[(''id'', ''2''), (''v'', ''old'')], [(''id'', ''3''), (''v'', ''c'')]]"
    by (simp_all add: scenario_target_def demo_db_def)
  show ?thesis
    using error_exit_keeps_target [where source = scenario_source
        and target = "scenario_target\<lparr>faults := refuse_at 4\<rparr>" and table_arg = "''items''"
        and where_arg = "[]" and dryRun = False and force = False] run before
    by (simp add: case_prod_unfold)
qed

section \<open>Runs that end before the target is read\<close>

text \<open>
  C6. When the catalog of the source lists no primary-key column for the table, the run
  fails with the no-primary-key error; the only statement sent is the key lookup on the
  source, and the target connection is exactly as before: no statement was sent to it and
  none of its rows changed.
\<close>

theorem no_primary_key_fails_first:
  assumes "pk_decl source = []"
    and "faults source (length (issued source)) \<notin> {Some Refused, Some StreamFails}"
  shows "fst (makeTableSame source target table_arg where_arg dryRun force)
           = Some (ErrNoPrimaryKey table_arg)
         \<and> snd (snd (makeTableSame source target table_arg where_arg dryRun force)) = target
         \<and> issued_since source (fst (snd (makeTableSame source target table_arg where_arg dryRun force)))
           = [PrimaryKeyLookup (snd (splitSchemaTable table_arg)) (fst (splitSchemaTable table_arg))]"
proof -
  obtain schema tableName where sp: "splitSchemaTable table_arg = (schema, tableName)"
    by (cases "splitSchemaTable table_arg") auto
  have "getPrimaryKeyColumns source schema tableName
          = (Inr [], source\<lparr>issued := issued source @ [PrimaryKeyLookup tableName schema]\<rparr>)"
    using assms
    by (cases "faults source (length (issued source))")
       (auto simp: getPrimaryKeyColumns_def send_def read_all_def split: fault.splits)
  then show ?thesis
    by (simp add: makeTableSame_def sp issued_since_def)
qed

theorem no_primary_key_fails_first_witness:
  "pk_decl keyless_source = []
   \<and> faults keyless_source (length (issued keyless_source)) \<notin> {Some Refused, Some StreamFails}
   \<and> fst (makeTableSame keyless_source scenario_target ''items'' [] False False)
       = Some (ErrNoPrimaryKey ''items'')
   \<and> issued (snd (snd (makeTableSame keyless_source scenario_target ''items'' [] False False))) = []"
  using no_primary_key_fails_first [where source = keyless_source and target = scenario_target
      and table_arg = "''items''" and where_arg = "[]" and dryRun = False and force = False]
  by (simp add: keyless_source_def scenario_target_def demo_db_def)

lemma classify_no_source: "classify force [] T = ([], [], map fst T)"
  by (simp add: classify_lists)

lemma classify_no_target: "classify force S [] = (map fst S, [], [])"
proof -
  have "filter (\<lambda>(k, h). False) S = []" by (induction S) auto
  moreover have "filter (\<lambda>(k, h). True) S = S" by (induction S) auto
  ultimately show ?thesis by (simp add: classify_lists)
qed

lemma collect_Nil: "collect [] = []"
  by (simp add: collect_def)

lemma fetchSourceData_empty:
  assumes "filter (\<lambda>r. where_arg = [] \<or> holds source where_arg r) (visible source) = []"
    and "fetchSourceData source pkCols schema tableName where_arg = (Inr data, source')"
  shows "data = []"
  using assms
  by (auto simp: fetchSourceData_def Let_def send_def select_hashes_def visible_def read_all_def collect_Nil
      split: prod.splits option.splits sum.splits fault.splits if_splits)

lemma getPrimaryKeyColumns_reads:
  "getPrimaryKeyColumns c schema tableName = (r, c') \<Longrightarrow> visible c' = visible c \<and> holds c' = holds c"
  by (auto simp: getPrimaryKeyColumns_def send_def visible_def split: option.splits)

lemma getColumnNames_reads:
  "getColumnNames c schema tableName = (r, c') \<Longrightarrow> visible c' = visible c \<and> holds c' = holds c"
  by (auto simp: getColumnNames_def send_def visible_def split: option.splits)

text \<open>
  C3, as amended. When no row of the source passes the filter, the run ends with the target
  connection exactly as before: with an empty source mapping the run returns \<open>nil\<close> at
  line 165, before the target is read, so that no key is classified and nothing is
  deleted. (The loops of lines 243 to 257, given an empty source mapping, would put every
  key of the target mapping in the list to delete.) When the target mapping is empty,
  every key of the source mapping is in the list to insert.
\<close>

theorem empty_source_returns_early:
  assumes "filter (\<lambda>r. where_arg = [] \<or> holds source where_arg r) (visible source) = []"
  shows "snd (snd (makeTableSame source target table_arg where_arg dryRun force)) = target
         \<and> synchronize schema tableName pkCols cols [] dryRun force src target = (None, src, target)
         \<and> classify force [] T = ([], [], map fst T)
         \<and> classify force S [] = (map fst S, [], [])"
proof -
  have sy: "synchronize schema tableName pkCols cols [] dryRun force src target = (None, src, target)"
    for schema tableName pkCols cols src
    by (simp add: synchronize_def)
  have "snd (snd (makeTableSame source target table_arg where_arg dryRun force)) = target"
  proof (cases "splitSchemaTable table_arg")
    case (Pair schema tableName)
    obtain a s1 where pk: "getPrimaryKeyColumns source schema tableName = (a, s1)"
      by (cases "getPrimaryKeyColumns source schema tableName") auto
    obtain b s2 where cn: "getColumnNames s1 schema tableName = (b, s2)"
      by (cases "getColumnNames s1 schema tableName") auto
    from getPrimaryKeyColumns_reads [OF pk] getColumnNames_reads [OF cn] assms
    have none: "filter (\<lambda>r. where_arg = [] \<or> holds s2 where_arg r) (visible s2) = []"
      by simp
    obtain d s3 where fs:
      "fetchSourceData s2 (snd (joinIdentifiers (projr a))) schema tableName where_arg = (d, s3)"
      by (cases "fetchSourceData s2 (snd (joinIdentifiers (projr a))) schema tableName where_arg") auto
    have e: "data = []" if "d = Inr data" for data
      using fetchSourceData_empty [OF none] fs that by simp
    show ?thesis
      unfolding makeTableSame_def Let_def
      using Pair pk cn fs e
      by (cases a; cases b; cases d) (auto simp: sy)
  qed
  then show ?thesis
    using sy classify_no_source classify_no_target by simp
qed


theorem empty_source_returns_early_witness:
  "filter (\<lambda>r. [] = [] \<or> holds empty_source [] r) (visible empty_source) = []
   \<and> fst (makeTableSame empty_source scenario_target ''items'' [] False False) = None
   \<and> snd (snd (makeTableSame empty_source scenario_target ''items'' [] False False)) = scenario_target
   \<and> classify False [(''1'', ''h1''), (''2'', ''h2'')] [] = ([''1'', ''2''], [], [])"
proof -
  have none: "filter (\<lambda>r. [] = [] \<or> holds empty_source [] r) (visible empty_source) = []"
    by (simp add: empty_source_def demo_db_def visible_def)
  have run: "fst (makeTableSame empty_source scenario_target ''items'' [] False False) = None"
    by code_simp
  show ?thesis
    using empty_source_returns_early [where source = empty_source and target = scenario_target
        and table_arg = "''items''" and where_arg = "[]" and dryRun = False and force = False
        and S = "[(''1'', ''h1''), (''2'', ''h2'')]", OF none] none run
    by simp
qed

text \<open>
  C3 as stated fails: a run against a source without rows returns \<open>nil\<close>, sends nothing to
  the target and leaves its two rows in place.
\<close>

theorem empty_source_deletes_nothing:
  "fst (makeTableSame empty_source scenario_target ''items'' [] False False) = None
   \<and> stored scenario_target = [[(''id'', ''2''), (''v'', ''old'')], [(''id'', ''3''), (''v'', ''c'')]]
   \<and> stored (snd (snd (makeTableSame empty_source scenario_target ''items'' [] False False)))
       = [[(''id'', ''2''), (''v'', ''old'')], [(''id'', ''3''), (''v'', ''c'')]]
   \<and> issued (snd (snd (makeTableSame empty_source scenario_target ''items'' [] False False))) = []"
  by code_simp

section \<open>The rows that the target query reads\<close>

text \<open>What a successful target query returns: the rows in which every key column has a
  value among the first components of the source keys. With one key column and keys
  without the separator, every key of the target mapping is then a key of the source
  mapping, and the list to delete is empty.\<close>

lemma collect_keys_acc:
  "fst ` set (foldl (\<lambda>data (pkValues, rowHash). AList.update (makeKey pkValues) rowHash data) acc scanned)
     = fst ` set acc \<union> (\<lambda>(pkValues, rowHash). makeKey pkValues) ` set scanned"
proof (induction scanned arbitrary: acc)
  case Nil
  then show ?case by simp
next
  case (Cons e scanned)
  obtain pk h where e: "e = (pk, h)" by (cases e)
  have "fst ` set (AList.update (makeKey pk) h acc) = insert (makeKey pk) (fst ` set acc)"
    by (simp add: dom_update)
  then show ?case
    unfolding e by (simp add: Cons.IH)
qed

lemma collect_keys: "fst ` set (collect scanned) = (\<lambda>(pkValues, rowHash). makeKey pkValues) ` set scanned"
  by (simp add: collect_def collect_keys_acc)

lemma read_all_subset: "read_all f items a b c = Inr got \<Longrightarrow> set got \<subseteq> set items"
  by (auto simp: read_all_def split: option.splits fault.splits if_splits)

lemma splitKey_plain: "embeddable k \<Longrightarrow> splitKey k = [Some k]"
  by (simp add: splitKey_def strings_Split_def split_part_end)

lemma fetchTargetData_success:
  assumes "fetchTargetData target pkCols schema tableName targetKeys = (Inr targetData, target')"
  shows "\<exists>keys names scanned.
           columns_named target' (map quoteIdentifier pkCols) = Some keys
           \<and> columns_named target' pkCols = Some names
           \<and> set scanned \<subseteq> (\<lambda>r. (map (map_of r) names, row_hash target' r)) `
                 {r \<in> set (visible target'). any_match keys (map (\<lambda>k. splitKey k ! 0) targetKeys) r}
           \<and> targetData = collect scanned"
proof -
  define t1 where "t1 = snd (send (TargetFingerprints pkCols (quoteIdentifier schema)
      (quoteIdentifier tableName) (map quoteIdentifier pkCols)
      (map (\<lambda>pkValues. pkValues ! 0) (map splitKey targetKeys))) target)"
  define f where "f = faults target (length (issued target))"
  define args where "args = map (\<lambda>k. splitKey k ! 0) targetKeys"
  have sd: "send (TargetFingerprints pkCols (quoteIdentifier schema)
      (quoteIdentifier tableName) (map quoteIdentifier pkCols)
      (map (\<lambda>pkValues. pkValues ! 0) (map splitKey targetKeys))) target = (f, t1)"
    by (simp add: t1_def f_def send_def)
  have a: "map (\<lambda>pkValues. pkValues ! 0) (map splitKey targetKeys) = args"
    by (simp add: args_def comp_def)
  note run = assms [unfolded fetchTargetData_def Let_def sd prod.case, unfolded a]
  obtain keys where keys: "columns_named t1 (map quoteIdentifier pkCols) = Some keys"
    using run by (cases "columns_named t1 (map quoteIdentifier pkCols)") auto
  obtain fetched where sel: "select_hashes t1 pkCols (quoteIdentifier schema) (quoteIdentifier tableName)
        (any_match keys args) = Inr fetched"
    using run keys
    by (cases "select_hashes t1 pkCols (quoteIdentifier schema) (quoteIdentifier tableName)
        (any_match keys args)") auto
  obtain scanned where rd: "read_all f fetched ErrQueryTarget ErrScanTarget ErrReadTarget = Inr scanned"
    using run keys sel
    by (cases "read_all f fetched ErrQueryTarget ErrScanTarget ErrReadTarget") auto
  from run keys sel rd have res: "targetData = collect scanned" "target' = t1"
    by simp_all
  from sel obtain names where names: "columns_named t1 pkCols = Some names"
    and fetched: "fetched = map (\<lambda>r. (map (map_of r) names, row_hash t1 r))
                 (filter (any_match keys args) (visible t1))"
    by (auto simp: select_hashes_def split: if_splits option.splits)
  from read_all_subset [OF rd] fetched
  have "set scanned \<subseteq> (\<lambda>r. (map (map_of r) names, row_hash t1 r)) `
                 {r \<in> set (visible t1). any_match keys args r}"
    by auto
  with keys names res show ?thesis
    unfolding args_def by blast
qed

lemma single_key_target_keys:
  assumes q: "dquote \<notin> set pk0"
    and plain: "\<forall>k \<in> set targetKeys. embeddable k"
    and fetch: "fetchTargetData target [quoteIdentifier pk0] schema tableName targetKeys
                  = (Inr targetData, target')"
  shows "fst ` set targetData \<subseteq> set targetKeys"
proof -
  have args: "map (\<lambda>k. splitKey k ! 0) targetKeys = map Some targetKeys"
    using plain by (induction targetKeys) (simp_all add: splitKey_plain)
  have n1: "ident_name (quoteIdentifier pk0) = Some pk0"
    using q by (rule ident_name_quote)
  have n2: "ident_name (quoteIdentifier (quoteIdentifier pk0)) = Some pk0"
    using q by (simp add: requote_plain ident_name_quote)
  from fetchTargetData_success [OF fetch] obtain keys names scanned where
    keys: "columns_named target' [quoteIdentifier (quoteIdentifier pk0)] = Some keys"
    and names: "columns_named target' [quoteIdentifier pk0] = Some names"
    and sc: "set scanned \<subseteq> (\<lambda>r. (map (map_of r) names, row_hash target' r)) `
                 {r \<in> set (visible target'). any_match keys (map Some targetKeys) r}"
    and td: "targetData = collect scanned"
    unfolding args by auto
  from keys have k1: "keys = [pk0]"
    by (auto simp: columns_named_def column_named_def n2 split: if_splits)
  from names have k2: "names = [pk0]"
    by (auto simp: columns_named_def column_named_def n1 split: if_splits)
  {
    fix k
    assume "k \<in> fst ` set targetData"
    then obtain pk h where s: "(pk, h) \<in> set scanned" and k: "k = makeKey pk"
      unfolding td collect_keys by auto
    from s sc obtain r where r: "any_match [pk0] (map Some targetKeys) r" and pk: "pk = [map_of r pk0]"
      unfolding k1 k2 by auto
    from r obtain v where v: "map_of r pk0 = Some v" "v \<in> set targetKeys"
      by (auto simp: any_match_def)
    with k pk have "k \<in> set targetKeys"
      by (simp add: makeKey_def sprint_v_def)
  }
  then show ?thesis by blast
qed

lemma single_key_never_deletes:
  assumes "dquote \<notin> set pk0"
    and "\<forall>k \<in> fst ` set sourceData. embeddable k"
    and "fetchTargetData target [quoteIdentifier pk0] schema tableName (map fst sourceData)
           = (Inr targetData, target')"
  shows "snd (snd (classify force sourceData targetData)) = []"
proof -
  have "fst ` set targetData \<subseteq> fst ` set sourceData"
    using single_key_target_keys [OF assms(1) _ assms(3)] assms(2) by simp
  then have "filter (\<lambda>(k, h). map_of sourceData k = None) targetData = []"
    by (force simp: filter_empty_conv map_of_eq_None_iff)
  then show ?thesis
    by (simp add: classify_lists)
qed

text \<open>
  C1. The scenario of the specification, run on the program: the target query is restricted
  to the keys of the source, so the target mapping holds key 2 only; key 1 is to insert,
  key 2 is to upsert and nothing is to delete. After the commit the target holds the rows
  of keys 1, 2 and 3: the row of key 3 is still there.
\<close>

theorem scenario_keeps_absent_key:
  "fst (fetchSourceData scenario_source [quoteIdentifier ''id''] ''public'' ''items'' [])
     = Inr [(''1'', ''id=1;v=a;''), (''2'', ''id=2;v=b;'')]
   \<and> fst (fetchTargetData scenario_target [quoteIdentifier ''id''] ''public'' ''items'' [''1'', ''2''])
     = Inr [(''2'', ''id=2;v=old;'')]
   \<and> classify False [(''1'', ''id=1;v=a;''), (''2'', ''id=2;v=b;'')] [(''2'', ''id=2;v=old;'')]
     = ([''1''], [''2''], [])
   \<and> fst (makeTableSame scenario_source scenario_target ''items'' [] False False) = None
   \<and> stored (snd (snd (makeTableSame scenario_source scenario_target ''items'' [] False False)))
     = [[(''id'', ''2''), (''v'', ''b'')], [(''id'', ''3''), (''v'', ''c'')],
        [(''id'', ''1''), (''v'', ''a'')]]"
  by code_simp

text \<open>
  C2. A two-column key: the source holds the row of key \<open>(1, 2)\<close>, the target the rows of
  keys \<open>(1, 1)\<close> and \<open>(1, 2)\<close>. The target query compares every key column with the first
  components of the source keys: it reads the row of key \<open>(1, 1)\<close>, which is no key of the
  source, and not the row of key \<open>(1, 2)\<close>, which is one; the run then deletes the row of
  key \<open>(1, 1)\<close>.
\<close>

theorem composite_key_reads_other_rows:
  "fst (fetchSourceData composite_source [quoteIdentifier ''a'', quoteIdentifier ''b''] ''public'' ''items'' [])
     = Inr [(''1::2'', ''a=1;b=2;v=x;'')]
   \<and> fst (fetchTargetData composite_target [quoteIdentifier ''a'', quoteIdentifier ''b'']
          ''public'' ''items'' [''1::2''])
     = Inr [(''1::1'', ''a=1;b=1;v=y;'')]
   \<and> classify False [(''1::2'', ''a=1;b=2;v=x;'')] [(''1::1'', ''a=1;b=1;v=y;'')]
     = ([''1::2''], [], [''1::1''])
   \<and> fst (makeTableSame composite_source composite_target ''items'' [] False False) = None
   \<and> stored (snd (snd (makeTableSame composite_source composite_target ''items'' [] False False)))
     = [[(''a'', ''1''), (''b'', ''2''), (''v'', ''x'')]]"
  by code_simp

section \<open>The excluded columns\<close>

lemma replace_Nil_iff: "strings_ReplaceAll s dquote [dquote, dquote] = [] \<longleftrightarrow> s = []"
  by (cases s) (auto simp: strings_ReplaceAll_def)

lemma replace_Cons:
  "strings_ReplaceAll (c # s) dquote [dquote, dquote] =
     (if c = dquote then [dquote, dquote] else [c]) @ strings_ReplaceAll s dquote [dquote, dquote]"
  by (simp add: strings_ReplaceAll_def)

lemma replace_snoc:
  "strings_ReplaceAll (s @ [c]) dquote [dquote, dquote] =
     strings_ReplaceAll s dquote [dquote, dquote] @ (if c = dquote then [dquote, dquote] else [c])"
  by (simp add: strings_ReplaceAll_def)

lemma undouble_replace: "undouble (strings_ReplaceAll s dquote [dquote, dquote]) = Some s"
proof (induction s)
  case Nil
  then show ?case by (simp add: strings_ReplaceAll_def)
next
  case (Cons c s)
  show ?case
  proof (cases "c = dquote")
    case True
    with Cons show ?thesis by (simp add: replace_Cons)
  next
    case False
    show ?thesis
    proof (cases "strings_ReplaceAll s dquote [dquote, dquote]")
      case Nil
      then have "s = []" by (simp add: replace_Nil_iff)
      with False show ?thesis by (simp add: strings_ReplaceAll_def)
    next
      case (Cons d r)
      with False Cons.IH show ?thesis by (simp add: replace_Cons)
    qed
  qed
qed

lemma ident_name_quoteIdentifier: "ident_name (quoteIdentifier c) = Some (strings_Trim c dquote)"
  by (simp add: quoteIdentifier_def ident_name_def undouble_replace)

lemma dropWhile_hd: "dropWhile P xs = [] \<or> \<not> P (hd (dropWhile P xs))"
  by (metis hd_dropWhile)

lemma trim_ends:
  "strings_Trim c q = [] \<or> (hd (strings_Trim c q) \<noteq> q \<and> last (strings_Trim c q) \<noteq> q)"
proof -
  define a where "a = dropWhile (\<lambda>x. x = q) c"
  define b where "b = dropWhile (\<lambda>x. x = q) (rev a)"
  have t: "strings_Trim c q = rev b"
    by (simp add: strings_Trim_def a_def b_def)
  have a: "a = [] \<or> hd a \<noteq> q"
    unfolding a_def using dropWhile_hd [of "\<lambda>x. x = q" c] by simp
  have b: "b = [] \<or> hd b \<noteq> q"
    unfolding b_def using dropWhile_hd [of "\<lambda>x. x = q" "rev a"] by simp
  show ?thesis
  proof (cases "b = []")
    case True
    with t show ?thesis by simp
  next
    case False
    with b have l: "last (rev b) \<noteq> q"
      by (simp add: last_rev)
    obtain zs where "rev a = zs @ b"
      unfolding b_def by (metis takeWhile_dropWhile_id)
    then have "a = rev b @ rev zs"
      by (metis rev_append rev_rev_ident)
    with False have "hd (rev b) = hd a" "a \<noteq> []"
      by simp_all
    with a l t show ?thesis by simp
  qed
qed

lemma trim_wrapped:
  assumes "x = [] \<or> (hd x \<noteq> q \<and> last x \<noteq> q)"
  shows "strings_Trim (q # x @ [q]) q = x"
proof (cases "x = []")
  case True
  then show ?thesis by (simp add: strings_Trim_def)
next
  case False
  with assms have h: "hd x \<noteq> q" and l: "last x \<noteq> q" by simp_all
  from False h have 1: "dropWhile (\<lambda>y. y = q) (x @ [q]) = x @ [q]"
    by (cases x) simp_all
  from False l have 2: "dropWhile (\<lambda>y. y = q) (rev x) = rev x"
    by (cases "rev x") (auto simp: last_rev [symmetric] hd_rev)
  show ?thesis
    by (simp add: strings_Trim_def 1 2)
qed

lemma replace_ends:
  assumes "x = [] \<or> (hd x \<noteq> dquote \<and> last x \<noteq> dquote)"
  shows "strings_ReplaceAll x dquote [dquote, dquote] = []
         \<or> (hd (strings_ReplaceAll x dquote [dquote, dquote]) \<noteq> dquote
            \<and> last (strings_ReplaceAll x dquote [dquote, dquote]) \<noteq> dquote)"
proof (cases "x = []")
  case True
  then show ?thesis by (simp add: strings_ReplaceAll_def)
next
  case False
  with assms have h: "hd x \<noteq> dquote" and l: "last x \<noteq> dquote" by simp_all
  from False obtain c s where cs: "x = c # s" by (cases x) auto
  from False obtain s' c' where sc: "x = s' @ [c']" by (cases x rule: rev_cases) auto
  from cs h have "hd (strings_ReplaceAll x dquote [dquote, dquote]) \<noteq> dquote"
    by (simp add: replace_Cons)
  moreover from sc l have "last (strings_ReplaceAll x dquote [dquote, dquote]) \<noteq> dquote"
    by (simp add: replace_snoc)
  ultimately show ?thesis by simp
qed

lemma trim_quoteIdentifier:
  "strings_Trim (quoteIdentifier c) dquote = strings_ReplaceAll (strings_Trim c dquote) dquote [dquote, dquote]"
  unfolding quoteIdentifier_def
  using trim_wrapped [OF replace_ends [OF trim_ends [of c dquote]]] by simp

lemma replace_keeps_quote: "dquote \<in> set x \<Longrightarrow> dquote \<in> set (strings_ReplaceAll x dquote [dquote, dquote])"
  by (induction x) (auto simp: replace_Cons)

lemma replace_excluded:
  assumes "skipColumns (strings_ReplaceAll x dquote [dquote, dquote])"
  shows "skipColumns x"
proof -
  have "dquote \<notin> set ''search_vector''"
    by (simp add: dquote_def)
  with assms have "dquote \<notin> set (strings_ReplaceAll x dquote [dquote, dquote])"
    by (simp add: skipColumns_def)
  then have "dquote \<notin> set x"
    using replace_keeps_quote by blast
  then have "strings_ReplaceAll x dquote [dquote, dquote] = x"
    by (rule replace_no_quote)
  with assms show ?thesis by simp
qed

lemma ident_name_requoted:
  "ident_name (quoteIdentifier (quoteIdentifier c))
     = Some (strings_ReplaceAll (strings_Trim c dquote) dquote [dquote, dquote])"
  by (simp add: ident_name_quoteIdentifier trim_quoteIdentifier)

lemma kept_once:
  assumes "\<forall>c \<in> set colNames. \<not> skipColumns c \<longrightarrow> \<not> skipColumns (strings_Trim c dquote)"
  shows "list_all (\<lambda>q. case ident_name q of None \<Rightarrow> True | Some n \<Rightarrow> \<not> skipColumns n)
           (map quoteIdentifier (filterColumns colNames))"
  using assms by (auto simp: list_all_iff filterColumns_def ident_name_quoteIdentifier)

lemma kept_twice:
  assumes "\<forall>c \<in> set colNames. \<not> skipColumns c \<longrightarrow> \<not> skipColumns (strings_Trim c dquote)"
  shows "list_all (\<lambda>q. case ident_name q of None \<Rightarrow> True | Some n \<Rightarrow> \<not> skipColumns n)
           (map quoteIdentifier (map quoteIdentifier (filterColumns colNames)))"
  using assms
  by (auto simp: list_all_iff filterColumns_def ident_name_requoted dest: replace_excluded)

lemma kept_select:
  assumes "\<forall>c \<in> set colNames. \<not> skipColumns c \<longrightarrow> \<not> skipColumns (strings_Trim c dquote)"
  shows "names_kept_columns
           (selectQuery (snd (joinIdentifiers (filterColumns colNames))) schema tableName pkCols pkValues)"
  using kept_once [OF assms]
  by (simp add: names_kept_columns_def selectQuery_def joinIdentifiers_def Let_def)

lemma kept_upsert:
  assumes "\<forall>c \<in> set colNames. \<not> skipColumns c \<longrightarrow> \<not> skipColumns (strings_Trim c dquote)"
  shows "names_kept_columns
           (upsertQuery schema tableName (snd (joinIdentifiers (filterColumns colNames))) pkCols columns)"
  using kept_twice [OF assms]
  by (simp add: names_kept_columns_def upsertQuery_def joinIdentifiers_def Let_def)

lemma select_hashes_whole_row:
  "select_hashes c sel sq tq keep = Inr xs \<Longrightarrow> map snd xs = map (row_hash c) (filter keep (visible c))"
  by (auto simp: select_hashes_def comp_def split: if_splits option.splits)

text \<open>For a table in which no column that is kept has a name that, stripped of the double
  quotes around it, is the name of an excluded column, no statement of the run names an
  excluded column: neither the select list of a row query on the source nor the column
  list or update set of an upsert on the target.\<close>

lemma run_names_kept_columns:
  assumes "\<forall>c \<in> set (col_decl source). \<not> skipColumns c \<longrightarrow> \<not> skipColumns (strings_Trim c dquote)"
  shows "only_issues names_kept_columns source
           (fst (snd (makeTableSame source target table_arg where_arg dryRun force)))
         \<and> only_issues names_kept_columns target
           (snd (snd (makeTableSame source target table_arg where_arg dryRun force)))"
proof -
  obtain r s' t' where run: "makeTableSame source target table_arg where_arg dryRun force = (r, s', t')"
    by (cases "makeTableSame source target table_arg where_arg dryRun force") auto
  have kept: "\<forall>c \<in> set colNames. \<not> skipColumns c \<longrightarrow> \<not> skipColumns (strings_Trim c dquote)"
    if "colNames = col_decl source \<or> colNames = []" for colNames
    using that assms by auto
  have "only_issues names_kept_columns source s' \<and> only_issues names_kept_columns target t'"
  proof (rule makeTableSame_only [OF run])
    show "names_kept_columns rq" if "read_columns rq = []" "written_columns rq = []" for rq
      using that by (simp add: names_kept_columns_def)
    then show "names_kept_columns rq"
      if "read_columns rq = []" "written_columns rq = []" "rq \<noteq> Commit" for rq
      using that by simp
    show "names_kept_columns
        (selectQuery (snd (joinIdentifiers (filterColumns colNames))) schema tableName pkCols pkValues)"
      if "colNames = col_decl source \<or> colNames = []" for colNames schema tableName pkCols pkValues
      using kept [OF that] by (rule kept_select)
    show "names_kept_columns
        (upsertQuery schema tableName (snd (joinIdentifiers (filterColumns colNames))) pkCols columns)"
      if "colNames = col_decl source \<or> colNames = []" for colNames schema tableName pkCols columns
      using kept [OF that] by (rule kept_upsert)
    show "dryRun \<or> names_kept_columns Commit"
      by (simp add: names_kept_columns_def)
  qed
  with run show ?thesis
    by simp
qed

text \<open>The fingerprint is the digest of the whole row: two rows that differ in the excluded
  column only have different fingerprints, the key is listed for upsert, the statements of
  the run name the columns \<open>id\<close> and \<open>v\<close> only, and the target row keeps its value of
  \<open>search_vector\<close>.\<close>

lemma excluded_value_changes_fingerprint:
  "AList.delete ''search_vector'' (hd (stored vector_source))
     = AList.delete ''search_vector'' (hd (stored vector_target))
   \<and> fst (fetchSourceData vector_source [quoteIdentifier ''id''] ''public'' ''items'' [])
       = Inr [(''1'', ''id=1;v=a;search_vector=x;'')]
   \<and> fst (fetchTargetData vector_target [quoteIdentifier ''id''] ''public'' ''items'' [''1''])
       = Inr [(''1'', ''id=1;v=a;search_vector=y;'')]
   \<and> classify False [(''1'', ''id=1;v=a;search_vector=x;'')] [(''1'', ''id=1;v=a;search_vector=y;'')]
       = ([], [''1''], [])
   \<and> concat (map read_columns
        (issued (fst (snd (makeTableSame vector_source vector_target ''items'' [] False False)))))
       = [quoteIdentifier ''id'', quoteIdentifier ''v'']
   \<and> concat (map written_columns
        (issued (snd (snd (makeTableSame vector_source vector_target ''items'' [] False False)))))
       = [quoteIdentifier ''id'', quoteIdentifier ''v'', quoteIdentifier ''id'', quoteIdentifier ''v'']
   \<and> stored (snd (snd (makeTableSame vector_source vector_target ''items'' [] False False)))
       = [[(''id'', ''1''), (''v'', ''a''), (''search_vector'', ''y'')]]"
  by code_simp

text \<open>
  C7. The excluded column is read and written all the same when the table also has a
  column whose name is \<open>search_vector\<close> between double quotes. That name is not in the
  exclusion set, so lines 98 to 104 keep it, and \<open>quoteIdentifier\<close> strips its quotes: the
  row query and the upsert then name the excluded column \<open>search_vector\<close>, whose value is
  read from the source and written to the target.
\<close>

theorem excluded_column_named_through_quotes:
  "\<not> skipColumns quoted_name
   \<and> filterColumns [''id'', ''search_vector'', quoted_name] = [''id'', quoted_name]
   \<and> quoteIdentifier quoted_name = quoteIdentifier ''search_vector''
   \<and> col_decl quoted_source = [''id'', ''search_vector'', quoted_name]
   \<and> stored quoted_source = [[(''id'', ''1''), (''search_vector'', ''x''), (quoted_name, ''q'')]]
   \<and> stored quoted_target = []
   \<and> fst (makeTableSame quoted_source quoted_target ''items'' [] False False) = None
   \<and> map ident_name (concat (map read_columns
        (issued (fst (snd (makeTableSame quoted_source quoted_target ''items'' [] False False))))))
       = [Some ''id'', Some ''search_vector'']
   \<and> map ident_name (concat (map written_columns
        (issued (snd (snd (makeTableSame quoted_source quoted_target ''items'' [] False False))))))
       = [Some ''id'', Some ''search_vector'', Some ''id'', Some ''search_vector'']
   \<and> \<not> only_issues names_kept_columns quoted_source
        (fst (snd (makeTableSame quoted_source quoted_target ''items'' [] False False)))
   \<and> \<not> only_issues names_kept_columns quoted_target
        (snd (snd (makeTableSame quoted_source quoted_target ''items'' [] False False)))
   \<and> stored (snd (snd (makeTableSame quoted_source quoted_target ''items'' [] False False)))
       = [[(''id'', ''1''), (''search_vector'', ''x'')]]"
  by code_simp

end
